theory Spec2Isabelle
  imports Complex_Main "HOL-Library.AList" "HOL-Library.Product_Lexorder"
begin

section \<open>Python values, identity and equality\<close>

text \<open>
  The comparison engine of \<^verbatim>\<open>deepdiff/diff.py\<close> (class \<^verbatim>\<open>DeepDiff\<close>) is embedded over the
  JSON-like part of Python's values: \<^verbatim>\<open>None\<close>, booleans, integers, strings, lists and
  dictionaries. The engine decides by object identity (\<^verbatim>\<open>is\<close>, \<^verbatim>\<open>id\<close>) as well as by
  value, and its inputs may be cyclic, so objects live in a heap and a value is a reference.
  \<^verbatim>\<open>None\<close>, \<^verbatim>\<open>True\<close> and \<^verbatim>\<open>False\<close> are singletons: they are their own identity.
  Two values are the same object exactly when they are equal as \<open>val\<close>; \<^verbatim>\<open>id(x)\<close> is \<open>x\<close>.
\<close>

type_synonym addr = nat

datatype val = VNone | VBool bool | VRef addr

datatype obj = OInt int | OStr string | OList "val list" | ODict "(val \<times> val) list"

type_synonym heap = "addr \<Rightarrow> obj"

datatype pytype = TNone | TBool | TInt | TStr | TList | TDict | TNotPresent

text \<open>The sentinel \<^verbatim>\<open>notpresent\<close> stands on the side of a level that has no item.\<close>

datatype side = Present val | notpresent

fun get_type :: "heap \<Rightarrow> side \<Rightarrow> pytype" where
  "get_type h notpresent = TNotPresent"
| "get_type h (Present VNone) = TNone"
| "get_type h (Present (VBool b)) = TBool"
| "get_type h (Present (VRef a)) =
     (case h a of OInt n \<Rightarrow> TInt | OStr s \<Rightarrow> TStr | OList xs \<Rightarrow> TList | ODict kvs \<Rightarrow> TDict)"

text \<open>\<^verbatim>\<open>isinstance(x, types)\<close>: \<^verbatim>\<open>bool\<close> is a subclass of \<^verbatim>\<open>int\<close>.\<close>

definition isinstance :: "heap \<Rightarrow> side \<Rightarrow> pytype list \<Rightarrow> bool" where
  "isinstance h x types =
     (get_type h x \<in> set types \<or> (get_type h x = TBool \<and> TInt \<in> set types))"

datatype error =
    RecursionError | ZeroDivisionError | KeyError | IndexError | PyTypeError | ValueError string | OutsideModel

definition bind_res :: "error + 'a \<Rightarrow> ('a \<Rightarrow> error + 'b) \<Rightarrow> error + 'b" where
  "bind_res m f = (case m of Inl e \<Rightarrow> Inl e | Inr x \<Rightarrow> f x)"

text \<open>The number a boolean or an integer stands for (\<^verbatim>\<open>True == 1\<close>).\<close>

fun num_val :: "heap \<Rightarrow> val \<Rightarrow> int option" where
  "num_val h VNone = None"
| "num_val h (VBool b) = Some (if b then 1 else 0)"
| "num_val h (VRef a) = (case h a of OInt n \<Rightarrow> Some n | _ \<Rightarrow> None)"

fun str_val :: "heap \<Rightarrow> val \<Rightarrow> string option" where
  "str_val h (VRef a) = (case h a of OStr s \<Rightarrow> Some s | _ \<Rightarrow> None)"
| "str_val h v = None"

text \<open>\<^verbatim>\<open>==\<close> on hashable scalars, as dictionary keys and \<^verbatim>\<open>difflib\<close> compare them.\<close>

definition key_eq :: "heap \<Rightarrow> val \<Rightarrow> val \<Rightarrow> bool" where
  "key_eq h x y =
     (x = y \<or>
      (case (num_val h x, num_val h y) of
         (Some m, Some n) \<Rightarrow> m = n
       | _ \<Rightarrow> (case (str_val h x, str_val h y) of (Some s, Some t) \<Rightarrow> s = t | _ \<Rightarrow> False)))"

fun dict_get :: "heap \<Rightarrow> (val \<times> val) list \<Rightarrow> val \<Rightarrow> val option" where
  "dict_get h [] k = None"
| "dict_get h ((k', v) # kvs) k = (if key_eq h k' k then Some v else dict_get h kvs k)"

fun all_opt :: "('a \<Rightarrow> bool option) \<Rightarrow> 'a list \<Rightarrow> bool option" where
  "all_opt p [] = Some True"
| "all_opt p (x # xs) =
     (case p x of None \<Rightarrow> None | Some False \<Rightarrow> Some False | Some True \<Rightarrow> all_opt p xs)"

text \<open>
  \<^verbatim>\<open>x == y\<close> on any two values. Lists and dictionaries compare their items, identical items
  being equal without a further look; the recursion is bounded by the interpreter's
  recursion limit, and \<open>None\<close> is its \<^verbatim>\<open>RecursionError\<close>.
\<close>

fun py_eq :: "heap \<Rightarrow> nat \<Rightarrow> val \<Rightarrow> val \<Rightarrow> bool option" where
  "py_eq h 0 x y = None"
| "py_eq h (Suc n) x y =
     (if x = y then Some True
      else case (x, y) of
        (VRef a, VRef b) \<Rightarrow>
          (case (h a, h b) of
             (OList xs, OList ys) \<Rightarrow>
               (if length xs \<noteq> length ys then Some False
                else all_opt (\<lambda>(u, v). py_eq h n u v) (zip xs ys))
           | (ODict kvs, ODict kws) \<Rightarrow>
               (if length kvs \<noteq> length kws then Some False
                else all_opt (\<lambda>(k, v). case dict_get h kws k of
                                 None \<Rightarrow> Some False | Some w \<Rightarrow> py_eq h n v w) kvs)
           | _ \<Rightarrow> Some (key_eq h x y))
      | _ \<Rightarrow> Some (key_eq h x y))"

section \<open>Levels, change records and the result tree\<close>

text \<open>
  \<^verbatim>\<open>DiffLevel\<close>, the relationship classes and \<^verbatim>\<open>TreeResult\<close> belong to
  \<^verbatim>\<open>deepdiff/model.py\<close>, which is not among the sources. A level keeps its two sides and
  the chain of relationships from the root; \<^verbatim>\<open>branch_deeper\<close> extends the chain.
  A result tree is the list of its records in the order they were added: \<^verbatim>\<open>tree[k]\<close> is
  the sublist of kind \<open>k\<close>, \<^verbatim>\<open>len(tree)\<close> the number of records, and merging one tree
  into another appends.
\<close>

datatype relationship =
    DictRelationship val
  | SubscriptableIterableRelationship int "int option"

datatype report_type =
    type_changes | values_changed
  | dictionary_item_added | dictionary_item_removed
  | iterable_item_added | iterable_item_removed | iterable_item_moved
  | repetition_change | custom_report string

record repetition =
  old_repeat :: nat
  new_repeat :: nat
  old_indexes :: "int list"
  new_indexes :: "int list"

record level =
  t1 :: side
  t2 :: side
  path :: "relationship list"
  additional :: "repetition option"

type_synonym tree = "(report_type \<times> level) list"

definition root_level :: "val \<Rightarrow> val \<Rightarrow> level" where
  "root_level a b = \<lparr>t1 = Present a, t2 = Present b, path = [], additional = None\<rparr>"

definition branch_deeper :: "level \<Rightarrow> side \<Rightarrow> side \<Rightarrow> relationship \<Rightarrow> level" where
  "branch_deeper lvl new_t1 new_t2 rel =
     \<lparr>t1 = new_t1, t2 = new_t2, path = path lvl @ [rel], additional = None\<rparr>"

definition tree_get :: "tree \<Rightarrow> report_type \<Rightarrow> level list" where
  "tree_get t k = map snd (filter (\<lambda>r. fst r = k) t)"

subsection \<open>Paths as text\<close>

text \<open>
  Modelled from the spec: \<^verbatim>\<open>DiffLevel.path()\<close> (model.py is not among the sources) renders
  the designated root token followed by one bracketed segment per relationship.
\<close>

fun nat_digits :: "nat \<Rightarrow> string" where
  "nat_digits n =
     (if n < 10 then [char_of (48 + n)]
      else nat_digits (n div 10) @ [char_of (48 + n mod 10)])"

definition int_repr :: "int \<Rightarrow> string" where
  "int_repr i = (if i < 0 then CHR ''-'' # nat_digits (nat (- i)) else nat_digits (nat i))"

fun val_repr :: "heap \<Rightarrow> val \<Rightarrow> string" where
  "val_repr h VNone = ''None''"
| "val_repr h (VBool b) = (if b then ''True'' else ''False'')"
| "val_repr h (VRef a) =
     (case h a of
        OInt n \<Rightarrow> int_repr n
      | OStr s \<Rightarrow> [CHR 0x27] @ s @ [CHR 0x27]
      | OList xs \<Rightarrow> ''[...]''
      | ODict kvs \<Rightarrow> ''{...}'')"

fun rel_repr :: "heap \<Rightarrow> relationship \<Rightarrow> string" where
  "rel_repr h (DictRelationship k) = ''['' @ val_repr h k @ '']''"
| "rel_repr h (SubscriptableIterableRelationship i j) = ''['' @ int_repr i @ '']''"

definition level_path :: "heap \<Rightarrow> level \<Rightarrow> string" where
  "level_path h lvl = ''root'' @ concat (map (rel_repr h) (path lvl))"

text \<open>Python's \<^verbatim>\<open>s in t\<close> on strings: \<open>s\<close> occurs in \<open>t\<close> as a contiguous run.\<close>

fun str_in :: "string \<Rightarrow> string \<Rightarrow> bool" where
  "str_in s [] = (s = [])"
| "str_in s (c # t) = (take (length s) (c # t) = s \<or> str_in s t)"

section \<open>Configuration, collaborators and shared state\<close>

text \<open>
  A custom operator: its match predicate, and what \<^verbatim>\<open>give_up_diffing\<close> does at a level: the
  records it files through \<^verbatim>\<open>custom_report_result\<close> and whether it prevents the default
  comparison.
\<close>

record custom_operator =
  op_match :: "level \<Rightarrow> bool"
  give_up_diffing :: "level \<Rightarrow> bool \<times> (report_type \<times> level) list"

text \<open>
  The cleaned parameters of a run (\<^verbatim>\<open>_parameters\<close>). Path and type filters are lists; an empty
  list is as falsy as \<^verbatim>\<open>None\<close>. A regular expression is the predicate its \<^verbatim>\<open>search\<close> decides.
  \<^verbatim>\<open>iterable_compare_func\<close> returns \<open>None\<close> where it raises \<^verbatim>\<open>CannotCompare\<close>.
  Cutoffs and distances are rational numbers. The options that rewrite keys and numbers
  before comparing (\<^verbatim>\<open>ignore_string_type_changes\<close>, \<^verbatim>\<open>ignore_numeric_type_changes\<close>,
  \<^verbatim>\<open>ignore_string_case\<close>, \<^verbatim>\<open>significant_digits\<close>, \<^verbatim>\<open>truncate_datetime\<close>,
  \<^verbatim>\<open>ignore_nan_inequality\<close>) and \<^verbatim>\<open>group_by\<close> are at their defaults.
\<close>

text \<open>The \<^verbatim>\<open>view\<close> argument: one of the three views the engine knows, or any other string.\<close>

datatype view = TEXT_VIEW | TREE_VIEW | DELTA_VIEW | OtherView string

record config =
  custom_operators :: "custom_operator list"
  ignore_order :: bool
  ignore_order_func :: "(level \<Rightarrow> bool) option"
  report_repetition :: bool
  exclude_paths :: "string list"
  include_paths :: "string list"
  exclude_regex_paths :: "(string \<Rightarrow> bool) list"
  exclude_types_tuple :: "pytype list"
  exclude_obj_callback :: "(side \<Rightarrow> string \<Rightarrow> bool) option"
  exclude_obj_callback_strict :: "(side \<Rightarrow> string \<Rightarrow> bool) option"
  include_obj_callback :: "(side \<Rightarrow> string \<Rightarrow> bool) option"
  include_obj_callback_strict :: "(side \<Rightarrow> string \<Rightarrow> bool) option"
  ignore_type_in_groups :: "pytype list list"
  ignore_type_subclasses :: bool
  iterable_compare_func :: "(val \<Rightarrow> val \<Rightarrow> level \<Rightarrow> bool option) option"
  zip_ordered_iterables :: bool
  ignore_private_variables :: bool
  math_epsilon :: "rat option"
  max_passes :: int
  max_diffs :: "int option"
  cutoff_distance_for_pairs :: rat
  cutoff_intersection_for_pairs :: rat
  cache_size :: nat
  cache_tuning_sample_size :: nat
  verbose_level :: int
  view :: view

text \<open>A content hash; the hashes of this embedding are integers.\<close>

type_synonym hashkey = int

datatype tag = TagEqual | TagReplace | TagDelete | TagInsert

text \<open>An opcode of \<^verbatim>\<open>difflib\<close>: tag, \<open>t1_from_index\<close>, \<open>t1_to_index\<close>, \<open>t2_from_index\<close>, \<open>t2_to_index\<close>.\<close>

datatype opcode = Opcode tag nat nat nat nat

text \<open>One bucket of a hash table: \<^verbatim>\<open>IndexedHash(indexes, item)\<close>.\<close>

record indexed_hash =
  indexes :: "int list"
  item :: side

type_synonym hashtable = "(hashkey \<times> indexed_hash) list"

text \<open>
  The collaborators the engine calls and the sources do not hold: the content hash
  (\<^verbatim>\<open>DeepHash\<close>, \<open>None\<close> where an item gets no hash), the distance read off a finished nested
  comparison (\<^verbatim>\<open>_get_rough_distance\<close> of distance.py, from the parameters, the nested tree
  and its two items; it may raise), the two precalculated distance tables of distance.py, the opcodes of
  \<^verbatim>\<open>difflib.SequenceMatcher\<close>, whether numpy is importable, and the interpreter's recursion
  limit. The heap the two inputs live in comes with them.
\<close>

record env =
  heap :: heap
  deephash :: "val \<Rightarrow> hashkey option"
  get_rough_distance :: "config \<Rightarrow> tree \<Rightarrow> val \<Rightarrow> val \<Rightarrow> error + rat"
  precalculate_numpy_arrays_distance ::
    "hashkey list \<Rightarrow> hashkey list \<Rightarrow> hashtable \<Rightarrow> hashtable \<Rightarrow> ((hashkey \<times> hashkey) \<times> rat) list option"
  precalculate_distance_by_custom_compare_func ::
    "hashkey list \<Rightarrow> hashkey list \<Rightarrow> hashtable \<Rightarrow> hashtable \<Rightarrow> ((hashkey \<times> hashkey) \<times> rat) list option"
  get_opcodes :: "val list \<Rightarrow> val list \<Rightarrow> opcode list"
  np :: bool
  recursion_limit :: nat

subsection \<open>The distance cache\<close>

text \<open>
  A cache key is the canonical encoding of an unordered pair of hashes (the larger hash
  first), or the key of a pairing: the two hash lists, each sorted
  (\<^verbatim>\<open>combine_hashes_lists\<close>). The source renders both as byte strings.
\<close>

datatype cache_key = DistanceKey hashkey hashkey | PairsKey "hashkey list" "hashkey list"

datatype cache_val = CDistance rat | CPairs "(hashkey \<times> hashkey) list"

text \<open>
  Modelled from the spec: \<^verbatim>\<open>LFUCache\<close> and \<^verbatim>\<open>DummyLFU\<close> (lfucache.py is not among the
  sources). The cache holds at most its capacity of entries, each with a use count; a
  lookup counts a use; storing a new key into a full cache first evicts the entry used
  least (the oldest such). The dummy holds nothing.
\<close>

datatype lfu = DummyLFU | LFUCache nat "(cache_key \<times> cache_val \<times> nat) list"

fun lfu_contains :: "lfu \<Rightarrow> cache_key \<Rightarrow> bool" where
  "lfu_contains DummyLFU k = False"
| "lfu_contains (LFUCache cap es) k = (k \<in> fst ` set es)"

fun lfu_get :: "lfu \<Rightarrow> cache_key \<Rightarrow> cache_val option \<times> lfu" where
  "lfu_get DummyLFU k = (None, DummyLFU)"
| "lfu_get (LFUCache cap es) k =
     (case map_of es k of
        None \<Rightarrow> (None, LFUCache cap es)
      | Some (v, n) \<Rightarrow> (Some v, LFUCache cap (AList.update k (v, Suc n) es)))"

fun least_used :: "(cache_key \<times> cache_val \<times> nat) list \<Rightarrow> cache_key option" where
  "least_used [] = None"
| "least_used ((k, v, n) # es) =
     (case least_used es of
        None \<Rightarrow> Some k
      | Some k' \<Rightarrow> (case map_of es k' of
                     Some (v', n') \<Rightarrow> if n \<le> n' then Some k else Some k'
                   | None \<Rightarrow> Some k))"

fun lfu_set :: "lfu \<Rightarrow> cache_key \<Rightarrow> cache_val \<Rightarrow> lfu" where
  "lfu_set DummyLFU k v = DummyLFU"
| "lfu_set (LFUCache cap es) k v =
     (case map_of es k of
        Some (v', n) \<Rightarrow> LFUCache cap (AList.update k (v, Suc n) es)
      | None \<Rightarrow>
          (if cap = 0 then LFUCache cap es
           else if length es < cap then LFUCache cap (es @ [(k, v, 1)])
           else (case least_used es of
                   None \<Rightarrow> LFUCache cap [(k, v, 1)]
                 | Some k' \<Rightarrow> LFUCache cap (AList.delete k' es @ [(k, v, 1)]))))"

subsection \<open>State\<close>

text \<open>
  The counters and flags of \<^verbatim>\<open>_stats\<close>, the distance cache and the re-enabling stride are
  shared by the root run and every nested run; \<open>tree\<close> and \<open>iterable_opcodes\<close> belong to
  one \<^verbatim>\<open>DeepDiff\<close> instance. \<open>warnings\<close> collects what goes to \<^verbatim>\<open>logger.warning\<close> and
  \<open>progress\<close> what goes to the progress logger.
\<close>

record state =
  PASSES_COUNT :: nat
  DIFF_COUNT :: nat
  DISTANCE_CACHE_HIT_COUNT :: nat
  PREVIOUS_DIFF_COUNT :: nat
  PREVIOUS_DISTANCE_CACHE_HIT_COUNT :: nat
  MAX_PASS_LIMIT_REACHED :: bool
  MAX_DIFF_LIMIT_REACHED :: bool
  DISTANCE_CACHE_ENABLED :: bool
  distance_cache :: lfu
  ENABLE_CACHE_EVERY_X_DIFF :: nat
  warnings :: "string list"
  progress :: "string list"
  tree :: tree
  iterable_opcodes :: "(string \<times> (opcode \<times> (val list \<times> val list) option) list) list"

definition MAX_PASSES_REACHED_MSG :: "int \<Rightarrow> string" where
  "MAX_PASSES_REACHED_MSG n =
     ''DeepDiff has reached the max number of passes of '' @ int_repr n @
     ''. You can possibly get more accurate results by increasing the max_passes parameter.''"

definition MAX_DIFFS_REACHED_MSG :: "int \<Rightarrow> string" where
  "MAX_DIFFS_REACHED_MSG n =
     ''DeepDiff has reached the max number of diffs of '' @ int_repr n @
     ''. You can possibly get more accurate results by increasing the max_diffs parameter.''"

definition CACHE_AUTO_ADJUST_THRESHOLD :: rat where
  "CACHE_AUTO_ADJUST_THRESHOLD = 1 / 4"

section \<open>The diff budget\<close>

definition auto_off_cache :: "state \<Rightarrow> error + state" where
  "auto_off_cache st =
     (if DISTANCE_CACHE_ENABLED st then
        (if DIFF_COUNT st = PREVIOUS_DIFF_COUNT st then Inl ZeroDivisionError
         else
           let angle =
                 (of_int (int (DISTANCE_CACHE_HIT_COUNT st) - int (PREVIOUS_DISTANCE_CACHE_HIT_COUNT st)) :: rat)
                 / of_int (int (DIFF_COUNT st) - int (PREVIOUS_DIFF_COUNT st))
           in if angle < CACHE_AUTO_ADJUST_THRESHOLD
              then Inr (st\<lparr>DISTANCE_CACHE_ENABLED := False,
                           progress := progress st @ [''Due to minimal cache hits, distance cache is disabled.'']\<rparr>)
              else Inr st)
      else Inr st)"

definition auto_tune_cache :: "config \<Rightarrow> state \<Rightarrow> error + state" where
  "auto_tune_cache cfg st =
     (if cache_tuning_sample_size cfg = 0 then Inl ZeroDivisionError
      else
        let take_sample = (DIFF_COUNT st mod cache_tuning_sample_size cfg = 0);
            r = (if DISTANCE_CACHE_ENABLED st then
                   (if take_sample then auto_off_cache st else Inr st)
                 else if ENABLE_CACHE_EVERY_X_DIFF st = 0 then Inl ZeroDivisionError
                 else if DIFF_COUNT st mod ENABLE_CACHE_EVERY_X_DIFF st = 0 then
                   Inr (st\<lparr>progress := progress st @ [''Re-enabling the distance and level caches.''],
                           ENABLE_CACHE_EVERY_X_DIFF := ENABLE_CACHE_EVERY_X_DIFF st * 10,
                           DISTANCE_CACHE_ENABLED := True\<rparr>)
                 else Inr st)
        in bind_res r (\<lambda>st1.
             if take_sample
             then Inr (st1\<lparr>PREVIOUS_DIFF_COUNT := DIFF_COUNT st1,
                           PREVIOUS_DISTANCE_CACHE_HIT_COUNT := DISTANCE_CACHE_HIT_COUNT st1\<rparr>)
             else Inr st1))"

text \<open>What \<^verbatim>\<open>_count_diff\<close> returns: \<^verbatim>\<open>StopIteration\<close>, or nothing.\<close>

datatype signal = StopIteration | Continue

definition counted :: "config \<Rightarrow> state \<Rightarrow> error + (signal \<times> state)" where
  "counted cfg st =
     (let st1 = st\<lparr>DIFF_COUNT := DIFF_COUNT st + 1\<rparr>
      in if cache_size cfg \<noteq> 0 \<and> cache_tuning_sample_size cfg \<noteq> 0
         then bind_res (auto_tune_cache cfg st1) (\<lambda>st2. Inr (Continue, st2))
         else Inr (Continue, st1))"

definition count_diff :: "config \<Rightarrow> state \<Rightarrow> error + (signal \<times> state)" where
  "count_diff cfg st =
     (case max_diffs cfg of
        None \<Rightarrow> counted cfg st
      | Some m \<Rightarrow>
          if int (DIFF_COUNT st) > m then
            Inr (StopIteration,
                 if \<not> MAX_DIFF_LIMIT_REACHED st
                 then st\<lparr>MAX_DIFF_LIMIT_REACHED := True,
                         warnings := warnings st @ [MAX_DIFFS_REACHED_MSG m]\<rparr>
                 else st)
          else counted cfg st)"

section \<open>Filters, reporting and custom operators\<close>

definition callback_any :: "(side \<Rightarrow> string \<Rightarrow> bool) \<Rightarrow> level \<Rightarrow> string \<Rightarrow> bool" where
  "callback_any f lvl p = (f (t1 lvl) p \<or> f (t2 lvl) p)"

definition callback_both :: "(side \<Rightarrow> string \<Rightarrow> bool) \<Rightarrow> level \<Rightarrow> string \<Rightarrow> bool" where
  "callback_both f lvl p = (f (t1 lvl) p \<and> f (t2 lvl) p)"

definition skip_this :: "env \<Rightarrow> config \<Rightarrow> level \<Rightarrow> bool" where
  "skip_this env cfg lvl =
     (let level_path = level_path (heap env) lvl;
          skip = (exclude_paths cfg \<noteq> [] \<and> level_path \<in> set (exclude_paths cfg))
      in if include_paths cfg \<noteq> [] \<and> level_path \<noteq> ''root'' then
           (if level_path \<notin> set (include_paths cfg)
            then \<not> (\<exists>prefix \<in> set (include_paths cfg). str_in prefix level_path \<or> str_in level_path prefix)
            else skip)
         else if exclude_regex_paths cfg \<noteq> [] \<and> (\<exists>re \<in> set (exclude_regex_paths cfg). re level_path) then True
         else if exclude_types_tuple cfg \<noteq> [] \<and>
                 (isinstance (heap env) (t1 lvl) (exclude_types_tuple cfg) \<or>
                  isinstance (heap env) (t2 lvl) (exclude_types_tuple cfg)) then True
         else if (case exclude_obj_callback cfg of None \<Rightarrow> False | Some f \<Rightarrow> callback_any f lvl level_path) then True
         else if (case exclude_obj_callback_strict cfg of None \<Rightarrow> False | Some f \<Rightarrow> callback_both f lvl level_path) then True
         else (case include_obj_callback cfg of
                 Some f \<Rightarrow> if level_path \<noteq> ''root'' then \<not> callback_any f lvl level_path else skip
               | None \<Rightarrow>
                   (case include_obj_callback_strict cfg of
                      Some f \<Rightarrow> if level_path \<noteq> ''root'' then \<not> callback_both f lvl level_path else skip
                    | None \<Rightarrow> skip)))"

text \<open>
  \<^verbatim>\<open>_report_result\<close>: a record goes to the local tree when one is passed, and to the
  instance's tree otherwise; nothing is recorded for a level the filters exclude.
\<close>

definition report_result ::
  "env \<Rightarrow> config \<Rightarrow> report_type \<Rightarrow> level \<Rightarrow> tree option \<Rightarrow> state \<Rightarrow> tree option \<times> state" where
  "report_result env cfg rt change_level local_tree st =
     (if \<not> skip_this env cfg change_level then
        (case local_tree of
           None \<Rightarrow> (None, st\<lparr>tree := tree st @ [(rt, change_level)]\<rparr>)
         | Some lt \<Rightarrow> (Some (lt @ [(rt, change_level)]), st))
      else (local_tree, st))"

definition custom_report_result :: "env \<Rightarrow> config \<Rightarrow> report_type \<times> level \<Rightarrow> state \<Rightarrow> state" where
  "custom_report_result env cfg r st =
     (if \<not> skip_this env cfg (snd r) then st\<lparr>tree := tree st @ [r]\<rparr> else st)"

fun use_custom_operator ::
  "env \<Rightarrow> config \<Rightarrow> custom_operator list \<Rightarrow> level \<Rightarrow> state \<Rightarrow> bool \<times> state" where
  "use_custom_operator env cfg [] lvl st = (False, st)"
| "use_custom_operator env cfg (operator # ops) lvl st =
     (if op_match operator lvl then
        (let (prevent_default, reports) = give_up_diffing operator lvl;
             st1 = fold (custom_report_result env cfg) reports st
         in if prevent_default then (True, st1) else use_custom_operator env cfg ops lvl st1)
      else use_custom_operator env cfg ops lvl st)"

section \<open>The view of the result\<close>

text \<open>
  \<^verbatim>\<open>TreeResult.mutual_add_removes_to_become_value_changes\<close> of deepdiff/model.py, which is
  not among the sources: when the tree holds an added and a removed iterable item of the
  same path, the two records are taken out and the removed level, given the added item as
  its second side, is filed as a changed value. Of several items of one kind at one path
  the last counts. The changed values are filed in the order of the removed items.
\<close>

definition path_table :: "heap \<Rightarrow> report_type \<Rightarrow> tree \<Rightarrow> (string \<times> level) list" where
  "path_table h k t = rev (map (\<lambda>l. (level_path h l, l)) (tree_get t k))"

definition mutual_add_removes_to_become_value_changes :: "heap \<Rightarrow> tree \<Rightarrow> tree" where
  "mutual_add_removes_to_become_value_changes h t =
     (let added_paths = path_table h iterable_item_added t;
          removed_paths = path_table h iterable_item_removed t;
          mutual_paths = filter (\<lambda>p. map_of added_paths p \<noteq> None)
                           (remdups (map (level_path h) (tree_get t iterable_item_removed)));
          moved = List.map_filter
                    (\<lambda>p. case (map_of removed_paths p, map_of added_paths p) of
                           (Some level_before, Some level_after) \<Rightarrow> Some (level_before, level_after)
                         | _ \<Rightarrow> None)
                    mutual_paths;
          kept = filter (\<lambda>(k, l). \<not> (k = iterable_item_removed \<and> l \<in> fst ` set moved)
                                   \<and> \<not> (k = iterable_item_added \<and> l \<in> snd ` set moved)) t
      in kept @ map (\<lambda>(level_before, level_after). (values_changed, level_before\<lparr>t2 := t2 level_after\<rparr>))
                    moved)"

definition INVALID_VIEW_MSG :: "string \<Rightarrow> string" where
  "INVALID_VIEW_MSG v =
     ''The only valid values for the view parameter are text and tree. But '' @ v @ '' was passed.''"

text \<open>
  \<^verbatim>\<open>_get_view_results\<close>: the tree with its mutual adds and removes rewritten, unless
  repetitions are reported; a view that is none of the three raises. The text and delta
  views render the records of this tree; the rendering is not modelled.
\<close>

definition get_view_results :: "heap \<Rightarrow> config \<Rightarrow> state \<Rightarrow> error + state" where
  "get_view_results h cfg st =
     (let st1 = (if \<not> report_repetition cfg
                 then st\<lparr>tree := mutual_add_removes_to_become_value_changes h (tree st)\<rparr>
                 else st)
      in case view cfg of
           OtherView v \<Rightarrow> Inl (ValueError (INVALID_VIEW_MSG v))
         | _ \<Rightarrow> Inr st1)"

section \<open>Loops that may return early\<close>

text \<open>
  A \<^verbatim>\<open>for\<close> loop whose body may leave the enclosing function (\<^verbatim>\<open>return\<close>, signalled by
  \<open>StopIteration\<close>) or raise. Most bodies of the engine start by consulting the budget:
  \<^verbatim>\<open>if self._count_diff() is StopIteration: return\<close>.
\<close>

fun for_loop :: "('a \<Rightarrow> 's \<Rightarrow> error + (signal \<times> 's)) \<Rightarrow> 'a list \<Rightarrow> 's \<Rightarrow> error + (signal \<times> 's)" where
  "for_loop body [] s = Inr (Continue, s)"
| "for_loop body (x # xs) s =
     (case body x s of
        Inl e \<Rightarrow> Inl e
      | Inr (StopIteration, s1) \<Rightarrow> Inr (StopIteration, s1)
      | Inr (Continue, s1) \<Rightarrow> for_loop body xs s1)"

type_synonym out = "tree option \<times> state"

definition budgeted ::
  "config \<Rightarrow> ('x \<times> state \<Rightarrow> error + (signal \<times> 'x \<times> state)) \<Rightarrow> 'x \<times> state \<Rightarrow> error + (signal \<times> 'x \<times> state)" where
  "budgeted cfg f = (\<lambda>(local_tree, st).
     case count_diff cfg st of
       Inl e \<Rightarrow> Inl e
     | Inr (StopIteration, st1) \<Rightarrow> Inr (StopIteration, (local_tree, st1))
     | Inr (Continue, st1) \<Rightarrow> f (local_tree, st1))"

definition continue :: "error + 's \<Rightarrow> error + (signal \<times> 's)" where
  "continue r = bind_res r (\<lambda>s. Inr (Continue, s))"

definition finish :: "error + (signal \<times> 's) \<Rightarrow> error + 's" where
  "finish r = bind_res r (\<lambda>(sig, s). Inr s)"

text \<open>The recursive call \<^verbatim>\<open>self._diff(level, parents_ids, local_tree=...)\<close>.\<close>

type_synonym differ = "level \<Rightarrow> val set \<Rightarrow> tree option \<Rightarrow> state \<Rightarrow> error + out"

section \<open>Scalars\<close>

definition level_eq :: "env \<Rightarrow> level \<Rightarrow> error + bool" where
  "level_eq env lvl =
     (case (t1 lvl, t2 lvl) of
        (Present a, Present b) \<Rightarrow>
          (case py_eq (heap env) (recursion_limit env) a b of
             None \<Rightarrow> Inl RecursionError
           | Some e \<Rightarrow> Inr e)
      | _ \<Rightarrow> Inl OutsideModel)"

definition diff_booleans :: "env \<Rightarrow> config \<Rightarrow> level \<Rightarrow> tree option \<Rightarrow> state \<Rightarrow> error + out" where
  "diff_booleans env cfg lvl local_tree st =
     bind_res (level_eq env lvl) (\<lambda>e.
       if \<not> e then Inr (report_result env cfg values_changed lvl local_tree st)
       else Inr (local_tree, st))"

text \<open>\<^verbatim>\<open>math.isclose(a, b, abs_tol=eps)\<close> with its default relative tolerance.\<close>

definition is_close :: "int \<Rightarrow> int \<Rightarrow> rat \<Rightarrow> bool" where
  "is_close a b abs_tol =
     (\<bar>of_int a - of_int b\<bar> \<le> max ((1 / 10 ^ 9) * max \<bar>of_int a\<bar> \<bar>of_int b\<bar>) abs_tol)"

definition diff_numbers :: "env \<Rightarrow> config \<Rightarrow> level \<Rightarrow> tree option \<Rightarrow> state \<Rightarrow> error + out" where
  "diff_numbers env cfg lvl local_tree st =
     (case math_epsilon cfg of
        Some eps \<Rightarrow>
          (case (t1 lvl, t2 lvl) of
             (Present a, Present b) \<Rightarrow>
               (case (num_val (heap env) a, num_val (heap env) b) of
                  (Some m, Some n) \<Rightarrow>
                    if eps < 0 then Inl (ValueError ''tolerances must be non-negative'')
                    else if \<not> is_close m n eps
                    then Inr (report_result env cfg values_changed lvl local_tree st)
                    else Inr (local_tree, st)
                | _ \<Rightarrow> Inl PyTypeError)
           | _ \<Rightarrow> Inl OutsideModel)
      | None \<Rightarrow>
          bind_res (level_eq env lvl) (\<lambda>e.
            if \<not> e then Inr (report_result env cfg values_changed lvl local_tree st)
            else Inr (local_tree, st)))"

text \<open>
  \<^verbatim>\<open>_diff_str\<close> with \<^verbatim>\<open>ignore_string_case\<close> off; the optional \<^verbatim>\<open>unified_diff\<close> text it
  attaches to the level is not kept.
\<close>

definition diff_str :: "env \<Rightarrow> config \<Rightarrow> level \<Rightarrow> tree option \<Rightarrow> state \<Rightarrow> error + out" where
  "diff_str env cfg lvl local_tree st =
     bind_res (level_eq env lvl) (\<lambda>e.
       if e then Inr (local_tree, st)
       else Inr (report_result env cfg values_changed lvl local_tree st))"

definition diff_types :: "env \<Rightarrow> config \<Rightarrow> level \<Rightarrow> tree option \<Rightarrow> state \<Rightarrow> out" where
  "diff_types env cfg lvl local_tree st = report_result env cfg type_changes lvl local_tree st"

section \<open>Dictionaries\<close>

definition private_key :: "heap \<Rightarrow> val \<Rightarrow> bool" where
  "private_key h k = (case str_val h k of Some s \<Rightarrow> take 2 s = ''__'' | None \<Rightarrow> False)"

definition dict_keys :: "env \<Rightarrow> config \<Rightarrow> (val \<times> val) list \<Rightarrow> val list" where
  "dict_keys env cfg kvs =
     (if ignore_private_variables cfg
      then filter (\<lambda>key. \<not> private_key (heap env) key) (map fst kvs)
      else map fst kvs)"

definition key_in :: "heap \<Rightarrow> val \<Rightarrow> val list \<Rightarrow> bool" where
  "key_in h k ks = list_ex (\<lambda>k'. key_eq h k' k) ks"

definition dict_added_body :: "env \<Rightarrow> config \<Rightarrow> level \<Rightarrow> (val \<times> val) list \<Rightarrow> val \<Rightarrow> out \<Rightarrow> error + (signal \<times> out)" where
  "dict_added_body env cfg lvl d2 key = budgeted cfg (\<lambda>(local_tree, st).
     case dict_get (heap env) d2 key of
       None \<Rightarrow> Inl KeyError
     | Some v \<Rightarrow>
         Inr (Continue,
              report_result env cfg dictionary_item_added
                (branch_deeper lvl notpresent (Present v) (DictRelationship key)) local_tree st))"

definition dict_removed_body :: "env \<Rightarrow> config \<Rightarrow> level \<Rightarrow> (val \<times> val) list \<Rightarrow> val \<Rightarrow> out \<Rightarrow> error + (signal \<times> out)" where
  "dict_removed_body env cfg lvl d1 key = budgeted cfg (\<lambda>(local_tree, st).
     case dict_get (heap env) d1 key of
       None \<Rightarrow> Inl KeyError
     | Some v \<Rightarrow>
         Inr (Continue,
              report_result env cfg dictionary_item_removed
                (branch_deeper lvl (Present v) notpresent (DictRelationship key)) local_tree st))"

definition dict_common_body ::
  "differ \<Rightarrow> env \<Rightarrow> config \<Rightarrow> level \<Rightarrow> (val \<times> val) list \<Rightarrow> (val \<times> val) list \<Rightarrow> val set \<Rightarrow> val \<Rightarrow> out \<Rightarrow> error + (signal \<times> out)" where
  "dict_common_body rec env cfg lvl d1 d2 parents_ids key = budgeted cfg (\<lambda>(local_tree, st).
     case (dict_get (heap env) d1 key, dict_get (heap env) d2 key) of
       (Some v1, Some v2) \<Rightarrow>
         if parents_ids \<noteq> {} \<and> v1 \<in> parents_ids then Inr (Continue, (local_tree, st))
         else continue (rec (branch_deeper lvl (Present v1) (Present v2) (DictRelationship key))
                            (insert v1 parents_ids) local_tree st)
     | _ \<Rightarrow> Inl KeyError)"

definition diff_dict :: "differ \<Rightarrow> env \<Rightarrow> config \<Rightarrow> level \<Rightarrow> val set \<Rightarrow> tree option \<Rightarrow> state \<Rightarrow> error + out" where
  "diff_dict rec env cfg lvl parents_ids local_tree st =
     (case (t1 lvl, t2 lvl) of
        (Present (VRef p), Present (VRef q)) \<Rightarrow>
          (case (heap env p, heap env q) of
             (ODict d1, ODict d2) \<Rightarrow>
               (let t1_keys = dict_keys env cfg d1;
                    t2_keys = dict_keys env cfg d2;
                    t_keys_intersect = filter (\<lambda>k. key_in (heap env) k t1_keys) t2_keys;
                    t_keys_added = filter (\<lambda>k. \<not> key_in (heap env) k t_keys_intersect) t2_keys;
                    t_keys_removed = filter (\<lambda>k. \<not> key_in (heap env) k t_keys_intersect) t1_keys
                in finish (
                     case for_loop (dict_added_body env cfg lvl d2) t_keys_added (local_tree, st) of
                       Inl e \<Rightarrow> Inl e
                     | Inr (StopIteration, s1) \<Rightarrow> Inr (StopIteration, s1)
                     | Inr (Continue, s1) \<Rightarrow>
                         (case for_loop (dict_removed_body env cfg lvl d1) t_keys_removed s1 of
                            Inl e \<Rightarrow> Inl e
                          | Inr (StopIteration, s2) \<Rightarrow> Inr (StopIteration, s2)
                          | Inr (Continue, s2) \<Rightarrow>
                              for_loop (dict_common_body rec env cfg lvl d1 d2 parents_ids) t_keys_intersect s2)))
           | _ \<Rightarrow> Inl PyTypeError)
      | _ \<Rightarrow> Inl PyTypeError)"

section \<open>Ordered sequences\<close>

text \<open>
  One element of \<^verbatim>\<open>_get_matching_pairs\<close>: \<^verbatim>\<open>((i, j), (x, y))\<close>, where one of \<open>x\<close> and \<open>y\<close> may
  be the sentinel \<^verbatim>\<open>ListItemRemovedOrAdded\<close>.
\<close>

datatype pairing = ItemRemoved val | ItemAdded val | ItemPair val val

type_synonym matching = "(int \<times> int) \<times> pairing"

fun zip_longest :: "val list \<Rightarrow> val list \<Rightarrow> pairing list" where
  "zip_longest [] [] = []"
| "zip_longest (x # xs) [] = ItemRemoved x # zip_longest xs []"
| "zip_longest [] (y # ys) = ItemAdded y # zip_longest [] ys"
| "zip_longest (x # xs) (y # ys) = ItemPair x y # zip_longest xs ys"

definition py_slice :: "'a list \<Rightarrow> nat \<Rightarrow> nat \<Rightarrow> 'a list" where
  "py_slice xs lo hi = take (hi - lo) (drop lo xs)"

definition compare_in_order :: "val list \<Rightarrow> val list \<Rightarrow> (nat \<times> nat \<times> nat \<times> nat) option \<Rightarrow> matching list" where
  "compare_in_order a b rng =
     (case rng of
        None \<Rightarrow> map (\<lambda>(i, xy). ((int i, int i), xy)) (enumerate 0 (zip_longest a b))
      | Some (t1_from_index, t1_to_index, t2_from_index, t2_to_index) \<Rightarrow>
          map (\<lambda>(i, xy). ((int (i + t1_from_index), int (i + t2_from_index)), xy))
            (enumerate 0 (zip_longest (py_slice a t1_from_index t1_to_index)
                                      (py_slice b t2_from_index t2_to_index))))"

text \<open>What a try block comes to: the function's value, \<^verbatim>\<open>CannotCompare\<close>, or another exception.\<close>

datatype 'a attempt = Done 'a | CannotCompare | Raised error

fun find_match :: "(val \<Rightarrow> bool option) \<Rightarrow> nat list \<Rightarrow> (nat \<times> val) list \<Rightarrow> (nat \<times> val) option attempt" where
  "find_match f y_index_matched [] = Done None"
| "find_match f y_index_matched ((j, y) # rest) =
     (if j \<in> set y_index_matched then find_match f y_index_matched rest
      else case f y of
        None \<Rightarrow> CannotCompare
      | Some True \<Rightarrow> Done (Some (j, y))
      | Some False \<Rightarrow> find_match f y_index_matched rest)"

fun match_t1 ::
  "env \<Rightarrow> (val \<Rightarrow> val \<Rightarrow> bool option) \<Rightarrow> (nat \<times> val) list \<Rightarrow> (nat \<times> val) list \<Rightarrow>
   matching list \<Rightarrow> hashkey list \<Rightarrow> nat list \<Rightarrow> (matching list \<times> hashkey list) attempt" where
  "match_t1 env f [] ys matches y_matched y_index_matched = Done (matches, y_matched)"
| "match_t1 env f ((i, x) # xs) ys matches y_matched y_index_matched =
     (case find_match (f x) y_index_matched ys of
        CannotCompare \<Rightarrow> CannotCompare
      | Raised e \<Rightarrow> Raised e
      | Done None \<Rightarrow>
          match_t1 env f xs ys (matches @ [((int i, - 1), ItemRemoved x)]) y_matched y_index_matched
      | Done (Some (j, y)) \<Rightarrow>
          (case deephash env y of
             None \<Rightarrow> Raised KeyError
           | Some hy \<Rightarrow>
               match_t1 env f xs ys (matches @ [((int i, int j), ItemPair x y)])
                 (y_matched @ [hy]) (y_index_matched @ [j])))"

fun unmatched_t2 :: "env \<Rightarrow> (nat \<times> val) list \<Rightarrow> hashkey list \<Rightarrow> matching list \<Rightarrow> matching list attempt" where
  "unmatched_t2 env [] y_matched matches = Done matches"
| "unmatched_t2 env ((j, y) # ys) y_matched matches =
     (case deephash env y of
        None \<Rightarrow> Raised KeyError
      | Some hy \<Rightarrow>
          unmatched_t2 env ys y_matched
            (if hy \<notin> set y_matched then matches @ [((- 1, int j), ItemAdded y)] else matches))"

definition get_matching_pairs ::
  "env \<Rightarrow> config \<Rightarrow> level \<Rightarrow> val list \<Rightarrow> val list \<Rightarrow> (nat \<times> nat \<times> nat \<times> nat) option \<Rightarrow> error + matching list" where
  "get_matching_pairs env cfg lvl a b rng =
     (case iterable_compare_func cfg of
        None \<Rightarrow> Inr (compare_in_order a b rng)
      | Some f \<Rightarrow>
          (case match_t1 env (\<lambda>x y. f x y lvl) (enumerate 0 a) (enumerate 0 b) [] [] [] of
             CannotCompare \<Rightarrow> Inr (compare_in_order a b rng)
           | Raised e \<Rightarrow> Inl e
           | Done (matches, y_matched) \<Rightarrow>
               (case unmatched_t2 env (enumerate 0 b) y_matched matches of
                  CannotCompare \<Rightarrow> Inr (compare_in_order a b rng)
                | Raised e \<Rightarrow> Inl e
                | Done ms \<Rightarrow> Inr ms)))"

definition pair_body ::
  "differ \<Rightarrow> env \<Rightarrow> config \<Rightarrow> level \<Rightarrow> val set \<Rightarrow> matching \<Rightarrow> out \<Rightarrow> error + (signal \<times> out)" where
  "pair_body rec env cfg lvl parents_ids m = budgeted cfg (\<lambda>(local_tree, st).
     case m of
       ((i, j), ItemRemoved x) \<Rightarrow>
         Inr (Continue,
              report_result env cfg iterable_item_removed
                (branch_deeper lvl (Present x) notpresent (SubscriptableIterableRelationship i None))
                local_tree st)
     | ((i, j), ItemAdded y) \<Rightarrow>
         Inr (Continue,
              report_result env cfg iterable_item_added
                (branch_deeper lvl notpresent (Present y) (SubscriptableIterableRelationship j None))
                local_tree st)
     | ((i, j), ItemPair x y) \<Rightarrow>
         (case (if i \<noteq> j
                then (case py_eq (heap env) (recursion_limit env) x y of
                        None \<Rightarrow> Inl RecursionError
                      | Some e \<Rightarrow> Inr (e \<or> iterable_compare_func cfg \<noteq> None))
                else Inr False) of
            Inl e \<Rightarrow> Inl e
          | Inr True \<Rightarrow>
              Inr (Continue,
                   report_result env cfg iterable_item_moved
                     (branch_deeper lvl (Present x) (Present y) (SubscriptableIterableRelationship i (Some j)))
                     local_tree st)
          | Inr False \<Rightarrow>
              if parents_ids \<noteq> {} \<and> x \<in> parents_ids then Inr (Continue, (local_tree, st))
              else continue (rec (branch_deeper lvl (Present x) (Present y)
                                    (SubscriptableIterableRelationship i None))
                                 (insert x parents_ids) local_tree st)))"

definition diff_by_forming_pairs_and_comparing_one_by_one ::
  "differ \<Rightarrow> env \<Rightarrow> config \<Rightarrow> level \<Rightarrow> val list \<Rightarrow> val list \<Rightarrow> (nat \<times> nat \<times> nat \<times> nat) option \<Rightarrow>
   val set \<Rightarrow> tree option \<Rightarrow> state \<Rightarrow> error + out" where
  "diff_by_forming_pairs_and_comparing_one_by_one rec env cfg lvl a b rng parents_ids local_tree st =
     bind_res (get_matching_pairs env cfg lvl a b rng) (\<lambda>ms.
       finish (for_loop (pair_body rec env cfg lvl parents_ids) ms (local_tree, st)))"

fun fold_res :: "('a \<Rightarrow> 's \<Rightarrow> error + 's) \<Rightarrow> 'a list \<Rightarrow> 's \<Rightarrow> error + 's" where
  "fold_res f [] s = Inr s"
| "fold_res f (x # xs) s = (case f x s of Inl e \<Rightarrow> Inl e | Inr s1 \<Rightarrow> fold_res f xs s1)"

type_synonym opcodes_with_values = "(opcode \<times> (val list \<times> val list) option) list"

fun opcode_body ::
  "differ \<Rightarrow> env \<Rightarrow> config \<Rightarrow> level \<Rightarrow> val list \<Rightarrow> val list \<Rightarrow> val set \<Rightarrow> opcode \<Rightarrow>
   opcodes_with_values \<times> out \<Rightarrow> error + (opcodes_with_values \<times> out)" where
  "opcode_body rec env cfg lvl a b parents_ids (Opcode tg t1_from_index t1_to_index t2_from_index t2_to_index)
     (opcodes_with_values, (local_tree, st)) =
     (if tg = TagEqual then
        Inr (opcodes_with_values @
               [(Opcode tg t1_from_index t1_to_index t2_from_index t2_to_index, None)],
             (local_tree, st))
      else
        let ops = opcodes_with_values @
                    [(Opcode tg t1_from_index t1_to_index t2_from_index t2_to_index,
                      Some (py_slice a t1_from_index t1_to_index, py_slice b t2_from_index t2_to_index))]
        in if tg = TagReplace then
             bind_res (diff_by_forming_pairs_and_comparing_one_by_one rec env cfg lvl a b
                         (Some (t1_from_index, t1_to_index, t2_from_index, t2_to_index))
                         parents_ids local_tree st)
               (\<lambda>s1. Inr (ops, s1))
           else if tg = TagDelete then
             Inr (ops,
                  fold (\<lambda>(index, x) (lt, s).
                          report_result env cfg iterable_item_removed
                            (branch_deeper lvl (Present x) notpresent
                               (SubscriptableIterableRelationship (int (index + t1_from_index)) None)) lt s)
                       (enumerate 0 (py_slice a t1_from_index t1_to_index)) (local_tree, st))
           else
             Inr (ops,
                  fold (\<lambda>(index, y) (lt, s).
                          report_result env cfg iterable_item_added
                            (branch_deeper lvl notpresent (Present y)
                               (SubscriptableIterableRelationship (int (index + t2_from_index)) None)) lt s)
                       (enumerate 0 (py_slice b t2_from_index t2_to_index)) (local_tree, st)))"

definition diff_ordered_iterable_by_difflib ::
  "differ \<Rightarrow> env \<Rightarrow> config \<Rightarrow> level \<Rightarrow> val list \<Rightarrow> val list \<Rightarrow> val set \<Rightarrow> tree option \<Rightarrow> state \<Rightarrow>
   error + (opcodes_with_values \<times> out)" where
  "diff_ordered_iterable_by_difflib rec env cfg lvl a b parents_ids local_tree st =
     fold_res (opcode_body rec env cfg lvl a b parents_ids) (get_opcodes env a b) ([], (local_tree, st))"

text \<open>\<^verbatim>\<open>basic_types\<close> of helper.py: strings, numbers, booleans and \<^verbatim>\<open>None\<close>.\<close>

definition all_values_basic_hashable :: "env \<Rightarrow> val list \<Rightarrow> bool" where
  "all_values_basic_hashable env iterable =
     list_all (\<lambda>item. isinstance (heap env) (Present item) [TStr, TInt, TBool, TNone]) iterable"

text \<open>Modelled from the spec: \<^verbatim>\<open>len\<close> of a \<^verbatim>\<open>TreeResult\<close> is its total number of change records.\<close>

definition tree_len :: "tree option \<Rightarrow> nat" where
  "tree_len local_tree = (case local_tree of None \<Rightarrow> 0 | Some t \<Rightarrow> length t)"

definition merge_into_tree :: "tree option \<Rightarrow> state \<Rightarrow> state" where
  "merge_into_tree local_tree_pass st =
     (case local_tree_pass of None \<Rightarrow> st | Some t \<Rightarrow> st\<lparr>tree := tree st @ t\<rparr>)"

definition diff_iterable_in_order ::
  "differ \<Rightarrow> env \<Rightarrow> config \<Rightarrow> level \<Rightarrow> val set \<Rightarrow> tree option \<Rightarrow> state \<Rightarrow> error + out" where
  "diff_iterable_in_order rec env cfg lvl parents_ids local_tree st =
     (case (t1 lvl, t2 lvl) of
        (Present (VRef p), Present (VRef q)) \<Rightarrow>
          (case (heap env p, heap env q) of
             (OList a, OList b) \<Rightarrow>
               if \<not> zip_ordered_iterables cfg
                  \<and> all_values_basic_hashable env a
                  \<and> all_values_basic_hashable env b
                  \<and> iterable_compare_func cfg = None
               then
                 bind_res (diff_ordered_iterable_by_difflib rec env cfg lvl a b parents_ids (Some []) st)
                   (\<lambda>(opcodes_with_values, (local_tree_pass, st1)).
                      if tree_len local_tree_pass > 1 then
                        bind_res (diff_by_forming_pairs_and_comparing_one_by_one rec env cfg lvl a b None
                                    parents_ids (Some []) st1)
                          (\<lambda>(local_tree_pass2, st2).
                             if tree_len local_tree_pass \<ge> tree_len local_tree_pass2
                             then Inr (local_tree, merge_into_tree local_tree_pass2 st2)
                             else Inr (local_tree,
                                       merge_into_tree local_tree_pass
                                         (st2\<lparr>iterable_opcodes :=
                                                 AList.update (level_path (heap env) lvl) opcodes_with_values
                                                   (iterable_opcodes st2)\<rparr>)))
                      else Inr (local_tree, merge_into_tree local_tree_pass st1))
               else
                 diff_by_forming_pairs_and_comparing_one_by_one rec env cfg lvl a b None
                   parents_ids local_tree st
           | _ \<Rightarrow> Inl PyTypeError)
      | _ \<Rightarrow> Inl PyTypeError)"

section \<open>Unordered collections\<close>

subsection \<open>Hash buckets\<close>

definition add_hash :: "hashtable \<Rightarrow> hashkey \<Rightarrow> val \<Rightarrow> int \<Rightarrow> hashtable" where
  "add_hash hashes item_hash itm i =
     (case map_of hashes item_hash of
        Some ih \<Rightarrow> AList.update item_hash (ih\<lparr>indexes := indexes ih @ [i]\<rparr>) hashes
      | None \<Rightarrow> hashes @ [(item_hash, \<lparr>indexes = [i], item = Present itm\<rparr>)])"

text \<open>
  \<^verbatim>\<open>_create_hashtable\<close>: an item the hashing collaborator gives no hash is left out of the
  table.
\<close>

definition create_hashtable :: "env \<Rightarrow> val list \<Rightarrow> hashtable" where
  "create_hashtable env obj =
     fold (\<lambda>(i, itm) local_hashes.
             case deephash env itm of
               None \<Rightarrow> local_hashes
             | Some item_hash \<Rightarrow> add_hash local_hashes item_hash itm (int i))
          (enumerate 0 obj) []"

definition notpresent_indexed :: indexed_hash where
  "notpresent_indexed = \<lparr>indexes = [0], item = notpresent\<rparr>"

subsection \<open>Rough distance, through the cache\<close>

definition get_distance_cache_key :: "hashkey \<Rightarrow> hashkey \<Rightarrow> cache_key" where
  "get_distance_cache_key added_hash removed_hash =
     (if added_hash > removed_hash then DistanceKey added_hash removed_hash
      else DistanceKey removed_hash added_hash)"

text \<open>
  A nested \<^verbatim>\<open>DeepDiff(t1, t2, _parameters=..., _shared_parameters=...)\<close>: the same
  parameters, the shared counters and cache, a tree of its own, the root level compared
  with \<^verbatim>\<open>parents_ids = {id(t1)}\<close>, and the view step of the constructor.
\<close>

definition nested_DeepDiff :: "differ \<Rightarrow> env \<Rightarrow> config \<Rightarrow> val \<Rightarrow> val \<Rightarrow> state \<Rightarrow> error + state" where
  "nested_DeepDiff rec env cfg a b st =
     bind_res (rec (root_level a b) {a} None (st\<lparr>tree := [], iterable_opcodes := []\<rparr>))
       (\<lambda>(lt, st1). get_view_results (heap env) cfg st1)"

definition get_rough_distance_of_hashed_objs ::
  "differ \<Rightarrow> env \<Rightarrow> config \<Rightarrow> hashkey \<Rightarrow> hashkey \<Rightarrow> indexed_hash \<Rightarrow> indexed_hash \<Rightarrow> state \<Rightarrow> error + (rat \<times> state)" where
  "get_rough_distance_of_hashed_objs rec env cfg added_hash removed_hash added_hash_obj removed_hash_obj st =
     (let cache_key = (if DISTANCE_CACHE_ENABLED st
                       then Some (get_distance_cache_key added_hash removed_hash) else None);
          hit = (case cache_key of
                   Some k \<Rightarrow> if lfu_contains (distance_cache st) k
                             then Some (lfu_get (distance_cache st) k) else None
                 | None \<Rightarrow> None)
      in case hit of
           Some (Some (CDistance d), c) \<Rightarrow>
             Inr (d, st\<lparr>DISTANCE_CACHE_HIT_COUNT := DISTANCE_CACHE_HIT_COUNT st + 1, distance_cache := c\<rparr>)
         | Some (_, c) \<Rightarrow> Inl PyTypeError
         | None \<Rightarrow>
             (case (item removed_hash_obj, item added_hash_obj) of
                (Present r, Present a) \<Rightarrow>
                  bind_res (nested_DeepDiff rec env cfg r a st) (\<lambda>st1.
                    bind_res (get_rough_distance env cfg (tree st1) r a) (\<lambda>distance.
                      let st2 = st1\<lparr>tree := tree st, iterable_opcodes := iterable_opcodes st\<rparr>
                      in case cache_key of
                           Some k \<Rightarrow>
                             if DISTANCE_CACHE_ENABLED st2
                             then Inr (distance, st2\<lparr>distance_cache := lfu_set (distance_cache st2) k (CDistance distance)\<rparr>)
                             else Inr (distance, st2)
                         | None \<Rightarrow> Inr (distance, st2)))
              | _ \<Rightarrow> Inl OutsideModel))"

subsection \<open>Pairing added and removed hashes\<close>

text \<open>
  \<open>most_in_common_pairs\<close>: for an added hash, for a distance, the ordered set of removed
  hashes at that distance; both levels in insertion order (\<^verbatim>\<open>defaultdict\<close> of
  \<^verbatim>\<open>defaultdict\<close> of \<^verbatim>\<open>OrderedSetPlus\<close>). An ordered set is a list without repetition;
  \<^verbatim>\<open>add\<close> appends a new element and \<^verbatim>\<open>lpop\<close> takes the first.
\<close>

type_synonym most_in_common = "(hashkey \<times> (rat \<times> hashkey list) list) list"

type_synonym pairs = "(hashkey \<times> hashkey) list"

definition oset_add :: "'a list \<Rightarrow> 'a \<Rightarrow> 'a list" where
  "oset_add xs x = (if x \<in> set xs then xs else xs @ [x])"

definition dd_get :: "('k \<times> 'v list) list \<Rightarrow> 'k \<Rightarrow> 'v list" where
  "dd_get m k = (case map_of m k of None \<Rightarrow> [] | Some v \<Rightarrow> v)"

definition mic_add :: "most_in_common \<Rightarrow> hashkey \<Rightarrow> rat \<Rightarrow> hashkey \<Rightarrow> most_in_common" where
  "mic_add most_in_common_pairs added_hash distance removed_hash =
     (let pairs_of_item = dd_get most_in_common_pairs added_hash
      in AList.update added_hash
           (AList.update distance (oset_add (dd_get pairs_of_item distance) removed_hash) pairs_of_item)
           most_in_common_pairs)"

text \<open>
  The distance of one candidate pair: from the precalculated table when there is one and
  it holds the pair, from \<^verbatim>\<open>_get_rough_distance_of_hashed_objs\<close> otherwise.
\<close>

definition candidate_distance ::
  "differ \<Rightarrow> env \<Rightarrow> config \<Rightarrow> ((hashkey \<times> hashkey) \<times> rat) list option \<Rightarrow> hashkey \<Rightarrow> hashkey \<Rightarrow>
   indexed_hash \<Rightarrow> indexed_hash \<Rightarrow> state \<Rightarrow> error + (rat \<times> state)" where
  "candidate_distance rec env cfg pre_calced_distances added_hash removed_hash added_hash_obj removed_hash_obj st =
     (case (case pre_calced_distances of
              None \<Rightarrow> None
            | Some pre \<Rightarrow> if pre \<noteq> [] then map_of pre (added_hash, removed_hash) else None) of
        Some d \<Rightarrow> Inr (d, st)
      | None \<Rightarrow> get_rough_distance_of_hashed_objs rec env cfg added_hash removed_hash
                  added_hash_obj removed_hash_obj st)"

text \<open>The loop is detected: the removed item is among the ancestors.\<close>

definition loop_detected :: "indexed_hash \<Rightarrow> val set \<Rightarrow> bool" where
  "loop_detected removed_hash_obj parents_ids =
     (case item removed_hash_obj of Present r \<Rightarrow> r \<in> parents_ids | notpresent \<Rightarrow> False)"

definition candidate_body ::
  "differ \<Rightarrow> env \<Rightarrow> config \<Rightarrow> hashtable \<Rightarrow> hashtable \<Rightarrow> val set \<Rightarrow>
   ((hashkey \<times> hashkey) \<times> rat) list option \<Rightarrow> hashkey \<Rightarrow> hashkey \<Rightarrow>
   most_in_common \<times> state \<Rightarrow> error + (most_in_common \<times> state)" where
  "candidate_body rec env cfg t1_hashtable t2_hashtable parents_ids pre_calced_distances added_hash removed_hash =
     (\<lambda>(most_in_common_pairs, st).
        case (map_of t2_hashtable added_hash, map_of t1_hashtable removed_hash) of
          (Some added_hash_obj, Some removed_hash_obj) \<Rightarrow>
            if loop_detected removed_hash_obj parents_ids
            then Inr (most_in_common_pairs, st)
            else
              bind_res
                (candidate_distance rec env cfg pre_calced_distances added_hash removed_hash
                   added_hash_obj removed_hash_obj st)
                (\<lambda>(distance, st1).
                   if distance \<ge> cutoff_distance_for_pairs cfg then Inr (most_in_common_pairs, st1)
                   else Inr (mic_add most_in_common_pairs added_hash distance removed_hash, st1))
        | _ \<Rightarrow> Inl KeyError)"

definition candidates ::
  "differ \<Rightarrow> env \<Rightarrow> config \<Rightarrow> hashkey list \<Rightarrow> hashkey list \<Rightarrow> hashtable \<Rightarrow> hashtable \<Rightarrow> val set \<Rightarrow>
   ((hashkey \<times> hashkey) \<times> rat) list option \<Rightarrow> state \<Rightarrow> error + (most_in_common \<times> state)" where
  "candidates rec env cfg hashes_added hashes_removed t1_hashtable t2_hashtable parents_ids pre_calced_distances st =
     fold_res (\<lambda>added_hash.
                 fold_res (candidate_body rec env cfg t1_hashtable t2_hashtable parents_ids
                             pre_calced_distances added_hash)
                          hashes_removed)
              hashes_added ([], st)"

definition distances_to_from_hashes :: "most_in_common \<Rightarrow> (rat \<times> hashkey list) list" where
  "distances_to_from_hashes most_in_common_pairs =
     fold (\<lambda>(from_hash, distances_to_to_hashes) acc.
             fold (\<lambda>(dst, to_hashes) acc1. AList.update dst (oset_add (dd_get acc1 dst) from_hash) acc1)
                  distances_to_to_hashes acc)
          most_in_common_pairs []"

fun to_hashes_loop :: "hashkey \<Rightarrow> hashkey list \<Rightarrow> hashkey set \<times> pairs \<Rightarrow> hashkey set \<times> pairs" where
  "to_hashes_loop from_hash [] (used_to_hashes, pairs) = (used_to_hashes, pairs)"
| "to_hashes_loop from_hash (to_hash # to_hashes) (used_to_hashes, pairs) =
     (if to_hash \<notin> used_to_hashes
      then to_hashes_loop from_hash to_hashes
             (insert to_hash (insert from_hash used_to_hashes), AList.update from_hash to_hash pairs)
      else to_hashes_loop from_hash to_hashes (used_to_hashes, pairs))"

fun from_hashes_loop ::
  "most_in_common \<Rightarrow> rat \<Rightarrow> hashkey list \<Rightarrow> hashkey set \<times> pairs \<Rightarrow> hashkey set \<times> pairs" where
  "from_hashes_loop most_in_common_pairs dst [] s = s"
| "from_hashes_loop most_in_common_pairs dst (from_hash # from_hashes) (used_to_hashes, pairs) =
     (if from_hash \<notin> used_to_hashes
      then from_hashes_loop most_in_common_pairs dst from_hashes
             (to_hashes_loop from_hash (dd_get (dd_get most_in_common_pairs from_hash) dst)
                (used_to_hashes, pairs))
      else from_hashes_loop most_in_common_pairs dst from_hashes (used_to_hashes, pairs))"

definition greedy_pairs :: "most_in_common \<Rightarrow> pairs" where
  "greedy_pairs most_in_common_pairs =
     (let d2f = distances_to_from_hashes most_in_common_pairs
      in snd (fold (\<lambda>dst. from_hashes_loop most_in_common_pairs dst (dd_get d2f dst))
                   (sort (map fst d2f)) ({}, [])))"

definition with_inverse :: "pairs \<Rightarrow> pairs" where
  "with_inverse pairs =
     (let inverse_pairs = fold (\<lambda>(k, v) inv. AList.update v k inv) pairs []
      in fold (\<lambda>(k, v) p. AList.update k v p) inverse_pairs pairs)"

text \<open>The precalculated distances, when one of the two shortcuts applies.\<close>

definition precalculated ::
  "env \<Rightarrow> config \<Rightarrow> hashkey list \<Rightarrow> hashkey list \<Rightarrow> hashtable \<Rightarrow> hashtable \<Rightarrow>
   ((hashkey \<times> hashkey) \<times> rat) list option" where
  "precalculated env cfg hashes_added hashes_removed t1_hashtable t2_hashtable =
     (let many = (hashes_added \<noteq> [] \<and> hashes_removed \<noteq> []
                  \<and> length hashes_added > 1 \<and> length hashes_removed > 1);
          pre0 = (if many \<and> np env
                  then precalculate_numpy_arrays_distance env hashes_added hashes_removed
                         t1_hashtable t2_hashtable
                  else None)
      in if many \<and> iterable_compare_func cfg \<noteq> None
         then precalculate_distance_by_custom_compare_func env hashes_added hashes_removed
                t1_hashtable t2_hashtable
         else pre0)"

definition get_most_in_common_pairs_in_iterables ::
  "differ \<Rightarrow> env \<Rightarrow> config \<Rightarrow> hashkey list \<Rightarrow> hashkey list \<Rightarrow> hashtable \<Rightarrow> hashtable \<Rightarrow> val set \<Rightarrow>
   state \<Rightarrow> error + (pairs \<times> state)" where
  "get_most_in_common_pairs_in_iterables rec env cfg hashes_added hashes_removed t1_hashtable t2_hashtable
     parents_ids st =
     (let cache_key = (if DISTANCE_CACHE_ENABLED st
                       then Some (PairsKey (sort hashes_added) (sort hashes_removed)) else None);
          hit = (case cache_key of
                   Some k \<Rightarrow> if lfu_contains (distance_cache st) k
                             then Some (lfu_get (distance_cache st) k) else None
                 | None \<Rightarrow> None)
      in case hit of
           Some (Some (CPairs cached), c) \<Rightarrow> Inr (cached, st\<lparr>distance_cache := c\<rparr>)
         | Some (_, c) \<Rightarrow> Inl PyTypeError
         | None \<Rightarrow>
             (let pre_calced_distances =
                    precalculated env cfg hashes_added hashes_removed t1_hashtable t2_hashtable
              in bind_res (candidates rec env cfg hashes_added hashes_removed t1_hashtable t2_hashtable
                             parents_ids pre_calced_distances st)
                   (\<lambda>(most_in_common_pairs, st1).
                      let pairs = with_inverse (greedy_pairs most_in_common_pairs)
                      in case cache_key of
                           Some k \<Rightarrow>
                             if DISTANCE_CACHE_ENABLED st1
                             then Inr (pairs, st1\<lparr>distance_cache := lfu_set (distance_cache st1) k (CPairs pairs)\<rparr>)
                             else Inr (pairs, st1)
                         | None \<Rightarrow> Inr (pairs, st1))))"

subsection \<open>Reporting from the buckets\<close>

text \<open>
  \<^verbatim>\<open>get_other_pair\<close>: the bucket paired with a hash, taken out of the pairing in both
  directions and out of the other side's hashes; \<^verbatim>\<open>notpresent_indexed\<close> when the hash has
  no pair.
\<close>

definition get_other_pair ::
  "hashkey \<Rightarrow> hashtable \<Rightarrow> pairs \<times> hashkey list \<Rightarrow> error + (indexed_hash \<times> pairs \<times> hashkey list)" where
  "get_other_pair hash_value hashtable = (\<lambda>(pairs, the_other_hashes).
     case map_of pairs hash_value of
       None \<Rightarrow> Inr (notpresent_indexed, pairs, the_other_hashes)
     | Some other \<Rightarrow>
         (let pairs1 = AList.delete hash_value pairs
          in if other \<notin> fst ` set pairs1 then Inl KeyError
             else if other \<notin> set the_other_hashes then Inl KeyError
             else case map_of hashtable other of
                    None \<Rightarrow> Inl KeyError
                  | Some ih \<Rightarrow> Inr (ih, AList.delete other pairs1, removeAll other the_other_hashes)))"

type_synonym bucket_state = "(pairs \<times> hashkey list \<times> tree option) \<times> state"

definition added_hash_body ::
  "differ \<Rightarrow> env \<Rightarrow> config \<Rightarrow> level \<Rightarrow> hashtable \<Rightarrow> hashtable \<Rightarrow> val set \<Rightarrow> hashkey \<Rightarrow>
   bucket_state \<Rightarrow> error + (signal \<times> bucket_state)" where
  "added_hash_body rec env cfg lvl t1_hashtable t2_hashtable parents_ids hash_value =
     budgeted cfg (\<lambda>((pairs, hashes_removed, local_tree), st).
       case get_other_pair hash_value t1_hashtable (pairs, hashes_removed) of
         Inl e \<Rightarrow> Inl e
       | Inr (other, pairs1, hashes_removed1) \<Rightarrow>
           (case map_of t2_hashtable hash_value of
              None \<Rightarrow> Inl KeyError
            | Some ih \<Rightarrow>
                (case item other of
                   notpresent \<Rightarrow>
                     (if report_repetition cfg then
                        (let (lt1, st1) =
                               fold (\<lambda>i (lt, s).
                                       report_result env cfg iterable_item_added
                                         (branch_deeper lvl notpresent (item ih)
                                            (SubscriptableIterableRelationship i None)) lt s)
                                    (indexes ih) (local_tree, st)
                         in Inr (Continue, ((pairs1, hashes_removed1, lt1), st1)))
                      else
                        (case indexes ih of
                           [] \<Rightarrow> Inl IndexError
                         | index # _ \<Rightarrow>
                             (let (lt1, st1) =
                                    report_result env cfg iterable_item_added
                                      (branch_deeper lvl notpresent (item ih)
                                         (SubscriptableIterableRelationship index None)) local_tree st
                              in Inr (Continue, ((pairs1, hashes_removed1, lt1), st1)))))
                 | Present other_item \<Rightarrow>
                     (if report_repetition cfg then
                        bind_res
                          (fold_res (\<lambda>i (lt, s).
                                       rec (branch_deeper lvl (Present other_item) (item ih)
                                              (SubscriptableIterableRelationship i None))
                                           (insert other_item parents_ids) lt s)
                                    (indexes other) (local_tree, st))
                          (\<lambda>(lt1, st1). Inr (Continue, ((pairs1, hashes_removed1, lt1), st1)))
                      else
                        (case indexes other of
                           [] \<Rightarrow> Inl IndexError
                         | index # _ \<Rightarrow>
                             bind_res
                               (rec (branch_deeper lvl (Present other_item) (item ih)
                                       (SubscriptableIterableRelationship index None))
                                    (insert other_item parents_ids) local_tree st)
                               (\<lambda>(lt1, st1). Inr (Continue, ((pairs1, hashes_removed1, lt1), st1))))))))"

definition removed_hash_body ::
  "differ \<Rightarrow> env \<Rightarrow> config \<Rightarrow> level \<Rightarrow> hashtable \<Rightarrow> hashtable \<Rightarrow> val set \<Rightarrow> hashkey \<Rightarrow>
   bucket_state \<Rightarrow> error + (signal \<times> bucket_state)" where
  "removed_hash_body rec env cfg lvl t1_hashtable t2_hashtable parents_ids hash_value =
     budgeted cfg (\<lambda>((pairs, hashes_added, local_tree), st).
       case get_other_pair hash_value t2_hashtable (pairs, hashes_added) of
         Inl e \<Rightarrow> Inl e
       | Inr (other, pairs1, hashes_added1) \<Rightarrow>
           (case map_of t1_hashtable hash_value of
              None \<Rightarrow> Inl KeyError
            | Some ih \<Rightarrow>
                (case (if report_repetition cfg then Inr (indexes ih)
                       else (case indexes ih of [] \<Rightarrow> Inl IndexError | index # _ \<Rightarrow> Inr [index])) of
                   Inl e \<Rightarrow> Inl e
                 | Inr idxs \<Rightarrow>
                     (case item other of
                        notpresent \<Rightarrow>
                          (let (lt1, st1) =
                                 fold (\<lambda>i (lt, s).
                                         report_result env cfg iterable_item_removed
                                           (branch_deeper lvl (item ih) notpresent
                                              (SubscriptableIterableRelationship i None)) lt s)
                                      idxs (local_tree, st)
                           in Inr (Continue, ((pairs1, hashes_added1, lt1), st1)))
                      | Present other_item \<Rightarrow>
                          bind_res
                            (fold_res (\<lambda>i (lt, s).
                                         rec (branch_deeper lvl (item ih) (Present other_item)
                                                (SubscriptableIterableRelationship i None))
                                             (insert other_item parents_ids) lt s)
                                      idxs (local_tree, st))
                            (\<lambda>(lt1, st1). Inr (Continue, ((pairs1, hashes_added1, lt1), st1)))))))"

definition repetition_body ::
  "env \<Rightarrow> config \<Rightarrow> level \<Rightarrow> hashtable \<Rightarrow> hashtable \<Rightarrow> hashkey \<Rightarrow> out \<Rightarrow> error + out" where
  "repetition_body env cfg lvl t1_hashtable t2_hashtable hash_value = (\<lambda>(local_tree, st).
     case (map_of t1_hashtable hash_value, map_of t2_hashtable hash_value) of
       (Some ih1, Some ih2) \<Rightarrow>
         (let t1_indexes = indexes ih1; t2_indexes = indexes ih2
          in if length t1_indexes \<noteq> length t2_indexes then
               (case t1_indexes of
                  [] \<Rightarrow> Inl IndexError
                | first # _ \<Rightarrow>
                    Inr (report_result env cfg repetition_change
                           ((branch_deeper lvl (item ih1) (item ih2)
                               (SubscriptableIterableRelationship first None))
                            \<lparr>additional := Some \<lparr>old_repeat = length t1_indexes,
                                                 new_repeat = length t2_indexes,
                                                 old_indexes = t1_indexes,
                                                 new_indexes = t2_indexes\<rparr>\<rparr>)
                           local_tree st))
             else Inr (local_tree, st))
     | _ \<Rightarrow> Inl KeyError)"

text \<open>
  The decision whether pairs are computed, and the pairing itself, of
  \<^verbatim>\<open>_diff_iterable_with_deephash\<close>.
\<close>

definition get_pairs_decision :: "config \<Rightarrow> nat \<Rightarrow> nat \<Rightarrow> nat \<Rightarrow> nat \<Rightarrow> bool" where
  "get_pairs_decision cfg n_added n_removed n_t1 n_t2 =
     (\<not> ((of_nat (n_added + n_removed) :: rat) / of_nat (n_t1 + n_t2 + 1)
           > cutoff_intersection_for_pairs cfg))"

definition pairing_phase ::
  "differ \<Rightarrow> env \<Rightarrow> config \<Rightarrow> bool \<Rightarrow> hashkey list \<Rightarrow> hashkey list \<Rightarrow> hashtable \<Rightarrow> hashtable \<Rightarrow> val set \<Rightarrow>
   state \<Rightarrow> error + (pairs \<times> state)" where
  "pairing_phase rec env cfg get_pairs hashes_added hashes_removed t1_hashtable t2_hashtable parents_ids st =
     (if int (PASSES_COUNT st) < max_passes cfg \<and> get_pairs then
        get_most_in_common_pairs_in_iterables rec env cfg hashes_added hashes_removed
          t1_hashtable t2_hashtable parents_ids (st\<lparr>PASSES_COUNT := PASSES_COUNT st + 1\<rparr>)
      else if get_pairs then
        Inr ([], if \<not> MAX_PASS_LIMIT_REACHED st
                 then st\<lparr>MAX_PASS_LIMIT_REACHED := True,
                         warnings := warnings st @ [MAX_PASSES_REACHED_MSG (max_passes cfg)]\<rparr>
                 else st)
      else Inr ([], st))"

text \<open>
  The reporting of \<^verbatim>\<open>_diff_iterable_with_deephash\<close>, once the pairs are there: the added
  hashes, the removed hashes that are left, and the repetitions.
\<close>

definition report_from_buckets ::
  "differ \<Rightarrow> env \<Rightarrow> config \<Rightarrow> level \<Rightarrow> hashkey list \<Rightarrow> hashkey list \<Rightarrow> hashkey list \<Rightarrow> hashkey list \<Rightarrow>
   hashtable \<Rightarrow> hashtable \<Rightarrow> val set \<Rightarrow> tree option \<Rightarrow> pairs \<times> state \<Rightarrow> error + out" where
  "report_from_buckets rec env cfg lvl t1_hashes t2_hashes hashes_added hashes_removed
     t1_hashtable t2_hashtable parents_ids local_tree =
     (\<lambda>(pairs, st1).
        case for_loop (added_hash_body rec env cfg lvl t1_hashtable t2_hashtable parents_ids)
               hashes_added ((pairs, hashes_removed, local_tree), st1) of
          Inl e \<Rightarrow> Inl e
        | Inr (StopIteration, ((pairs1, hashes_removed1, lt1), st2)) \<Rightarrow> Inr (lt1, st2)
        | Inr (Continue, ((pairs1, hashes_removed1, lt1), st2)) \<Rightarrow>
            (case for_loop (removed_hash_body rec env cfg lvl t1_hashtable t2_hashtable parents_ids)
                    hashes_removed1 ((pairs1, hashes_added, lt1), st2) of
               Inl e \<Rightarrow> Inl e
             | Inr (StopIteration, ((pairs2, hashes_added2, lt2), st3)) \<Rightarrow> Inr (lt2, st3)
             | Inr (Continue, ((pairs2, hashes_added2, lt2), st3)) \<Rightarrow>
                 if report_repetition cfg then
                   fold_res (repetition_body env cfg lvl t1_hashtable t2_hashtable)
                     (filter (\<lambda>k. k \<in> set t1_hashes) t2_hashes) (lt2, st3)
                 else Inr (lt2, st3)))"

definition diff_iterable_with_deephash ::
  "differ \<Rightarrow> env \<Rightarrow> config \<Rightarrow> level \<Rightarrow> val set \<Rightarrow> tree option \<Rightarrow> state \<Rightarrow> error + out" where
  "diff_iterable_with_deephash rec env cfg lvl parents_ids local_tree st =
     (case (t1 lvl, t2 lvl) of
        (Present (VRef p), Present (VRef q)) \<Rightarrow>
          (case (heap env p, heap env q) of
             (OList a, OList b) \<Rightarrow>
               (let full_t1_hashtable = create_hashtable env a;
                    full_t2_hashtable = create_hashtable env b;
                    t1_hashes = map fst full_t1_hashtable;
                    t2_hashes = map fst full_t2_hashtable;
                    hashes_added = filter (\<lambda>k. k \<notin> set t1_hashes) t2_hashes;
                    hashes_removed = filter (\<lambda>k. k \<notin> set t2_hashes) t1_hashes;
                    get_pairs = get_pairs_decision cfg (length hashes_added) (length hashes_removed)
                                  (length full_t1_hashtable) (length full_t2_hashtable);
                    t1_hashtable = (if report_repetition cfg then full_t1_hashtable
                                    else filter (\<lambda>(k, v). k \<in> set hashes_removed) full_t1_hashtable);
                    t2_hashtable = (if report_repetition cfg then full_t2_hashtable
                                    else filter (\<lambda>(k, v). k \<in> set hashes_added) full_t2_hashtable)
                in bind_res (pairing_phase rec env cfg get_pairs hashes_added hashes_removed
                               t1_hashtable t2_hashtable parents_ids st)
                     (report_from_buckets rec env cfg lvl t1_hashes t2_hashes hashes_added hashes_removed
                        t1_hashtable t2_hashtable parents_ids local_tree))
           | _ \<Rightarrow> Inl PyTypeError)
      | _ \<Rightarrow> Inl PyTypeError)"

definition diff_iterable ::
  "differ \<Rightarrow> env \<Rightarrow> config \<Rightarrow> level \<Rightarrow> val set \<Rightarrow> tree option \<Rightarrow> state \<Rightarrow> error + out" where
  "diff_iterable rec env cfg lvl parents_ids local_tree st =
     (if (case ignore_order_func cfg of None \<Rightarrow> False | Some f \<Rightarrow> f lvl) \<or> ignore_order cfg
      then diff_iterable_with_deephash rec env cfg lvl parents_ids local_tree st
      else diff_iterable_in_order rec env cfg lvl parents_ids local_tree st)"

section \<open>The main dispatch\<close>

definition type_check_func :: "env \<Rightarrow> config \<Rightarrow> side \<Rightarrow> pytype list \<Rightarrow> bool" where
  "type_check_func env cfg x type_group =
     (if ignore_type_subclasses cfg then get_type (heap env) x \<in> set type_group
      else isinstance (heap env) x type_group)"

text \<open>
  \<^verbatim>\<open>_diff\<close>, with its recursive calls as the parameter \<open>rec\<close>, in two parts: its first
  statement \<^verbatim>\<open>if self._count_diff() is StopIteration: return\<close>, and, as \<open>compare_level\<close>,
  the rest of its body, run in the state the counting leaves. Of the type dispatch the
  branches for booleans, strings, numbers, mappings and other iterables are those the
  values of this embedding reach.
\<close>

definition compare_level :: "differ \<Rightarrow> env \<Rightarrow> config \<Rightarrow> differ" where
  "compare_level rec env cfg lvl parents_ids local_tree st1 =
     (case use_custom_operator env cfg (custom_operators cfg) lvl st1 of
        (True, st2) \<Rightarrow> Inr (local_tree, st2)
      | (False, st2) \<Rightarrow>
          if t1 lvl = t2 lvl then Inr (local_tree, st2)
          else if skip_this env cfg lvl then Inr (local_tree, st2)
          else if get_type (heap env) (t1 lvl) \<noteq> get_type (heap env) (t2 lvl)
                  \<and> \<not> list_ex (\<lambda>type_group. type_check_func env cfg (t1 lvl) type_group
                                             \<and> type_check_func env cfg (t2 lvl) type_group)
                                (ignore_type_in_groups cfg)
          then Inr (diff_types env cfg lvl local_tree st2)
          else if get_type (heap env) (t1 lvl) \<noteq> get_type (heap env) (t2 lvl)
                  \<and> (t1 lvl = Present VNone \<or> t2 lvl = Present VNone)
          then Inr (report_result env cfg values_changed lvl local_tree st2)
          else
            (case get_type (heap env) (t1 lvl) of
               TBool \<Rightarrow> diff_booleans env cfg lvl local_tree st2
             | TStr \<Rightarrow> diff_str env cfg lvl local_tree st2
             | TInt \<Rightarrow> diff_numbers env cfg lvl local_tree st2
             | TDict \<Rightarrow> diff_dict rec env cfg lvl parents_ids local_tree st2
             | TList \<Rightarrow> diff_iterable rec env cfg lvl parents_ids local_tree st2
             | _ \<Rightarrow> Inl OutsideModel))"

definition diff_body :: "differ \<Rightarrow> env \<Rightarrow> config \<Rightarrow> differ" where
  "diff_body rec env cfg lvl parents_ids local_tree st =
     (case count_diff cfg st of
        Inl e \<Rightarrow> Inl e
      | Inr (StopIteration, st1) \<Rightarrow> Inr (local_tree, st1)
      | Inr (Continue, st1) \<Rightarrow> compare_level rec env cfg lvl parents_ids local_tree st1)"

text \<open>
  The recursion of \<^verbatim>\<open>_diff\<close> is as deep as the input is nested; the bound \<open>n\<close> is the depth the
  interpreter allows, and running into it is \<^verbatim>\<open>RecursionError\<close>.
\<close>

primrec diff :: "nat \<Rightarrow> env \<Rightarrow> config \<Rightarrow> differ" where
  "diff 0 env cfg = (\<lambda>lvl parents_ids local_tree st. Inl RecursionError)"
| "diff (Suc n) env cfg = diff_body (diff n env cfg) env cfg"

section \<open>Construction\<close>

text \<open>
  The arguments of \<^verbatim>\<open>DeepDiff.__init__\<close>: the keyword arguments it knows (\<open>given\<close>, with
  \<^verbatim>\<open>cache_purge_level\<close> beside them), the names of those it does not know (\<^verbatim>\<open>**kwargs\<close>),
  and the two arguments a nested run is built with, \<^verbatim>\<open>_parameters\<close> and
  \<^verbatim>\<open>_shared_parameters\<close>.
\<close>

record init_args =
  kwargs :: "string list"
  given :: config
  cache_purge_level :: int
  parameters :: "config option"
  shared_parameters :: "state option"

definition VERBOSE_LEVEL_RANGE_MSG :: string where
  "VERBOSE_LEVEL_RANGE_MSG = ''verbose_level should be 0, 1, or 2.''"

definition PURGE_LEVEL_RANGE_MSG :: string where
  "PURGE_LEVEL_RANGE_MSG = ''cache_purge_level should be 0, 1, or 2.''"

definition CUTOFF_RANGE_ERROR_MSG :: string where
  "CUTOFF_RANGE_ERROR_MSG = ''cutoff_distance_for_pairs needs to be a positive float max 1.''"

fun join :: "string \<Rightarrow> string list \<Rightarrow> string" where
  "join sep [] = []"
| "join sep [x] = x"
| "join sep (x # y # ys) = x @ sep @ join sep (y # ys)"

text \<open>The checks of the constructor, in its order; the parameters of the run when all pass.\<close>

definition clean_parameters :: "init_args \<Rightarrow> error + config" where
  "clean_parameters args =
     (if kwargs args \<noteq> [] then
        Inl (ValueError (''The following parameter(s) are not valid: '' @ join '', '' (kwargs args)))
      else case parameters args of
        Some ps \<Rightarrow> Inr ps
      | None \<Rightarrow>
          if verbose_level (given args) \<notin> {0, 1, 2} then Inl (ValueError VERBOSE_LEVEL_RANGE_MSG)
          else if cache_purge_level args \<notin> {0, 1, 2} then Inl (ValueError PURGE_LEVEL_RANGE_MSG)
          else if cutoff_distance_for_pairs (given args) < 0 \<or> cutoff_distance_for_pairs (given args) > 1
          then Inl (ValueError CUTOFF_RANGE_ERROR_MSG)
          else Inr (given args))"

text \<open>The shared state a root run starts from.\<close>

definition root_state :: "init_args \<Rightarrow> config \<Rightarrow> state" where
  "root_state args cfg =
     \<lparr>PASSES_COUNT = 0, DIFF_COUNT = 0, DISTANCE_CACHE_HIT_COUNT = 0,
      PREVIOUS_DIFF_COUNT = 0, PREVIOUS_DISTANCE_CACHE_HIT_COUNT = 0,
      MAX_PASS_LIMIT_REACHED = False, MAX_DIFF_LIMIT_REACHED = False,
      DISTANCE_CACHE_ENABLED = (cache_size (given args) \<noteq> 0),
      distance_cache = (if cache_size (given args) \<noteq> 0 then LFUCache (cache_size (given args)) [] else DummyLFU),
      ENABLE_CACHE_EVERY_X_DIFF = cache_tuning_sample_size cfg * 10,
      warnings = [], progress = [], tree = [], iterable_opcodes = []\<rparr>"

text \<open>
  \<^verbatim>\<open>DeepDiff(t1, t2, ...)\<close>: the checks, then the comparison of the root level
  (\<open>root_diff\<close>), then the view step. The value is the final state: the tree of change
  records and the statistics.
\<close>

definition root_diff :: "env \<Rightarrow> init_args \<Rightarrow> config \<Rightarrow> val \<Rightarrow> val \<Rightarrow> error + state" where
  "root_diff env args cfg a b =
     (let st0 = (case shared_parameters args of
                   Some shared \<Rightarrow> shared\<lparr>tree := [], iterable_opcodes := []\<rparr>
                 | None \<Rightarrow> root_state args cfg)
      in bind_res (diff (recursion_limit env) env cfg (root_level a b) {a} None st0)
           (\<lambda>(lt, st). Inr st))"

definition DeepDiff :: "env \<Rightarrow> init_args \<Rightarrow> val \<Rightarrow> val \<Rightarrow> error + state" where
  "DeepDiff env args a b =
     bind_res (clean_parameters args) (\<lambda>cfg.
       bind_res (root_diff env args cfg a b) (get_view_results (heap env) cfg))"

section \<open>A model of \<^verbatim>\<open>difflib.SequenceMatcher\<close>\<close>

text \<open>
  \<^verbatim>\<open>SequenceMatcher(isjunk=None, a=t1, b=t2, autojunk=False).get_opcodes()\<close> of Python's
  standard library, as the engine calls it: no element is junk. It instantiates the
  collaborator \<open>get_opcodes\<close> where a run is evaluated on concrete sequences.
  \<open>find_longest_match\<close> keeps, for the row of \<open>a[i]\<close>, the lengths of the matches that end at
  each \<open>j\<close>, and the first longest match met.
\<close>

type_synonym block = "nat \<times> nat \<times> nat"

fun flm_cols ::
  "heap \<Rightarrow> val \<Rightarrow> nat \<Rightarrow> (nat \<times> val) list \<Rightarrow> (nat \<times> nat) list \<Rightarrow> (nat \<times> nat) list \<Rightarrow> block \<Rightarrow>
   (nat \<times> nat) list \<times> block" where
  "flm_cols h x i [] j2len newj2len best = (newj2len, best)"
| "flm_cols h x i ((j, y) # rest) j2len newj2len (besti, bestj, bestsize) =
     (if key_eq h x y then
        (let k = (if j = 0 then 0 else (case map_of j2len (j - 1) of None \<Rightarrow> 0 | Some k0 \<Rightarrow> k0)) + 1
         in flm_cols h x i rest j2len (newj2len @ [(j, k)])
              (if k > bestsize then (i + 1 - k, j + 1 - k, k) else (besti, bestj, bestsize)))
      else flm_cols h x i rest j2len newj2len (besti, bestj, bestsize))"

fun flm_rows :: "heap \<Rightarrow> (nat \<times> val) list \<Rightarrow> (nat \<times> val) list \<Rightarrow> (nat \<times> nat) list \<Rightarrow> block \<Rightarrow> block" where
  "flm_rows h [] bs j2len best = best"
| "flm_rows h ((i, x) # rest) bs j2len best =
     (let (newj2len, best1) = flm_cols h x i bs j2len [] best
      in flm_rows h rest bs newj2len best1)"

definition find_longest_match :: "heap \<Rightarrow> val list \<Rightarrow> val list \<Rightarrow> nat \<Rightarrow> nat \<Rightarrow> nat \<Rightarrow> nat \<Rightarrow> block" where
  "find_longest_match h a b alo ahi blo bhi =
     flm_rows h (filter (\<lambda>(i, x). alo \<le> i \<and> i < ahi) (enumerate 0 a))
              (filter (\<lambda>(j, y). blo \<le> j \<and> j < bhi) (enumerate 0 b))
              [] (alo, blo, 0)"

text \<open>The queue loop of \<^verbatim>\<open>get_matching_blocks\<close>; \<open>n\<close> bounds its iterations.\<close>

fun matching_blocks_loop ::
  "nat \<Rightarrow> heap \<Rightarrow> val list \<Rightarrow> val list \<Rightarrow> (nat \<times> nat \<times> nat \<times> nat) list \<Rightarrow> block list \<Rightarrow> block list option" where
  "matching_blocks_loop 0 h a b queue blocks = (if queue = [] then Some blocks else None)"
| "matching_blocks_loop (Suc n) h a b queue blocks =
     (if queue = [] then Some blocks
      else
        (let (alo, ahi, blo, bhi) = last queue;
             (i, j, k) = find_longest_match h a b alo ahi blo bhi
         in if k \<noteq> 0 then
              matching_blocks_loop n h a b
                (butlast queue
                 @ (if alo < i \<and> blo < j then [(alo, i, blo, j)] else [])
                 @ (if i + k < ahi \<and> j + k < bhi then [(i + k, ahi, j + k, bhi)] else []))
                (blocks @ [(i, j, k)])
            else matching_blocks_loop n h a b (butlast queue) blocks))"

fun collapse_adjacent :: "block \<Rightarrow> block list \<Rightarrow> block list" where
  "collapse_adjacent (i1, j1, k1) [] = (if k1 \<noteq> 0 then [(i1, j1, k1)] else [])"
| "collapse_adjacent (i1, j1, k1) ((i2, j2, k2) # rest) =
     (if i1 + k1 = i2 \<and> j1 + k1 = j2 then collapse_adjacent (i1, j1, k1 + k2) rest
      else (if k1 \<noteq> 0 then [(i1, j1, k1)] else []) @ collapse_adjacent (i2, j2, k2) rest)"

definition get_matching_blocks :: "heap \<Rightarrow> val list \<Rightarrow> val list \<Rightarrow> block list option" where
  "get_matching_blocks h a b =
     map_option (\<lambda>blocks. collapse_adjacent (0, 0, 0) (sort blocks) @ [(length a, length b, 0)])
       (matching_blocks_loop (2 * length a + 2) h a b [(0, length a, 0, length b)] [])"

fun opcodes_of_blocks :: "nat \<Rightarrow> nat \<Rightarrow> block list \<Rightarrow> opcode list" where
  "opcodes_of_blocks i j [] = []"
| "opcodes_of_blocks i j ((ai, bj, sz) # rest) =
     (if i < ai \<and> j < bj then [Opcode TagReplace i ai j bj]
      else if i < ai then [Opcode TagDelete i ai j bj]
      else if j < bj then [Opcode TagInsert i ai j bj]
      else [])
     @ (if sz \<noteq> 0 then [Opcode TagEqual ai (ai + sz) bj (bj + sz)] else [])
     @ opcodes_of_blocks (ai + sz) (bj + sz) rest"

definition SequenceMatcher_get_opcodes :: "heap \<Rightarrow> val list \<Rightarrow> val list \<Rightarrow> opcode list" where
  "SequenceMatcher_get_opcodes h a b =
     (case get_matching_blocks h a b of None \<Rightarrow> [] | Some blocks \<Rightarrow> opcodes_of_blocks 0 0 blocks)"

section \<open>Default arguments and small inputs\<close>

text \<open>The defaults of \<^verbatim>\<open>DeepDiff.__init__\<close>.\<close>

definition CUTOFF_DISTANCE_FOR_PAIRS_DEFAULT :: rat where
  "CUTOFF_DISTANCE_FOR_PAIRS_DEFAULT = 3 / 10"

definition CUTOFF_INTERSECTION_FOR_PAIRS_DEFAULT :: rat where
  "CUTOFF_INTERSECTION_FOR_PAIRS_DEFAULT = 7 / 10"

definition default_config :: config where
  "default_config =
     \<lparr>custom_operators = [], ignore_order = False, ignore_order_func = None,
      report_repetition = False, exclude_paths = [], include_paths = [],
      exclude_regex_paths = [], exclude_types_tuple = [],
      exclude_obj_callback = None, exclude_obj_callback_strict = None,
      include_obj_callback = None, include_obj_callback_strict = None,
      ignore_type_in_groups = [], ignore_type_subclasses = False,
      iterable_compare_func = None, zip_ordered_iterables = False,
      ignore_private_variables = True, math_epsilon = None,
      max_passes = 10000000, max_diffs = None,
      cutoff_distance_for_pairs = CUTOFF_DISTANCE_FOR_PAIRS_DEFAULT,
      cutoff_intersection_for_pairs = CUTOFF_INTERSECTION_FOR_PAIRS_DEFAULT,
      cache_size = 0, cache_tuning_sample_size = 0, verbose_level = 1, view = TEXT_VIEW\<rparr>"

definition default_args :: init_args where
  "default_args =
     \<lparr>kwargs = [], given = default_config, cache_purge_level = 1,
      parameters = None, shared_parameters = None\<rparr>"

text \<open>
  An environment over a heap: an integer hashes to itself and nothing else has a hash; the
  distance of two integers is that of \<^verbatim>\<open>_get_numbers_distance\<close> of distance.py with
  \<^verbatim>\<open>max_ = cutoff_distance_for_pairs\<close>, in exact arithmetic where the source computes in
  doubles: \<open>0\<close> for equal numbers, and otherwise \<open>|a - b|\<close> over the divisor
  \<open>(a + b) / max_\<close>, capped at \<open>max_\<close>, where dividing by a cutoff of zero raises; for items
  that are not both numbers the distance is \<open>0\<close> when the nested comparison found nothing
  and \<open>1\<close> otherwise. No table is precalculated, numpy is absent, and \<^verbatim>\<open>difflib\<close> is the
  model above.
\<close>

definition int_hash :: "heap \<Rightarrow> val \<Rightarrow> hashkey option" where
  "int_hash h v =
     (case v of
        VRef a \<Rightarrow> (case h a of OInt n \<Rightarrow> Some n | _ \<Rightarrow> None)
      | _ \<Rightarrow> None)"

definition numbers_distance :: "heap \<Rightarrow> config \<Rightarrow> tree \<Rightarrow> val \<Rightarrow> val \<Rightarrow> error + rat" where
  "numbers_distance h cfg t a b =
     (let mx = cutoff_distance_for_pairs cfg
      in case (num_val h a, num_val h b) of
           (Some m, Some n) \<Rightarrow>
             if m = n then Inr 0
             else if mx = 0 then Inl ZeroDivisionError
             else if of_int (m + n) / mx = 0 then Inr mx
             else Inr (min mx \<bar>of_int (m - n) / (of_int (m + n) / mx)\<bar>)
         | _ \<Rightarrow> Inr (if t = [] then 0 else 1))"

definition simple_env :: "heap \<Rightarrow> env" where
  "simple_env h =
     \<lparr>heap = h, deephash = int_hash h,
      get_rough_distance = numbers_distance h,
      precalculate_numpy_arrays_distance = (\<lambda>ha hr t1h t2h. None),
      precalculate_distance_by_custom_compare_func = (\<lambda>ha hr t1h t2h. None),
      get_opcodes = SequenceMatcher_get_opcodes h,
      np = False, recursion_limit = 1000\<rparr>"

text \<open>A heap in which address \<open>n\<close> holds the integer \<open>n\<close>, but for the objects listed.\<close>

definition heap_of :: "(addr \<times> obj) list \<Rightarrow> heap" where
  "heap_of objs = (\<lambda>a. case map_of objs a of Some ob \<Rightarrow> ob | None \<Rightarrow> OInt (int a))"

section \<open>Notions the properties are stated with\<close>

text \<open>The budget is exceeded: \<^verbatim>\<open>max_diffs\<close> is set and the counter is strictly above it.\<close>

definition limit_exceeded :: "config \<Rightarrow> state \<Rightarrow> bool" where
  "limit_exceeded cfg st = (case max_diffs cfg of None \<Rightarrow> False | Some m \<Rightarrow> m < int (DIFF_COUNT st))"

text \<open>A custom operator takes over at a level: one that matches it prevents the default.\<close>

definition takes_over :: "config \<Rightarrow> level \<Rightarrow> bool" where
  "takes_over cfg lvl =
     list_ex (\<lambda>operator. op_match operator lvl \<and> fst (give_up_diffing operator lvl)) (custom_operators cfg)"

text \<open>
  A step never takes counts back: when it returns, the counter of the state it returns,
  read by \<open>prj\<close>, is not behind the counter it started from. A comparison of levels is
  \<open>counting\<close> when this holds of each of its calls.
\<close>

definition counts_on :: "('r \<Rightarrow> state) \<Rightarrow> state \<Rightarrow> error + 'r \<Rightarrow> bool" where
  "counts_on prj st r = (case r of Inl e \<Rightarrow> True | Inr x \<Rightarrow> DIFF_COUNT st \<le> DIFF_COUNT (prj x))"

definition counting :: "differ \<Rightarrow> bool" where
  "counting rec = (\<forall>lvl parents_ids local_tree st. counts_on snd st (rec lvl parents_ids local_tree st))"

text \<open>
  The state of the cache tuning can be divided by: the counter is not behind its last
  sample, and the re-enabling stride is not zero when tuning is on. A root state is so,
  and \<^verbatim>\<open>_count_diff\<close> keeps it so.
\<close>

definition tune_ok :: "config \<Rightarrow> state \<Rightarrow> bool" where
  "tune_ok cfg st =
     (PREVIOUS_DIFF_COUNT st \<le> DIFF_COUNT st
      \<and> (cache_tuning_sample_size cfg \<noteq> 0 \<longrightarrow> ENABLE_CACHE_EVERY_X_DIFF st \<noteq> 0))"

text \<open>A record as it is read: its kind, the two items and the path.\<close>

definition record_view :: "tree \<Rightarrow> (report_type \<times> side \<times> side \<times> relationship list) list" where
  "record_view t = map (\<lambda>(k, l). (k, t1 l, t2 l, path l)) t"

definition the_tree :: "tree option \<Rightarrow> tree" where
  "the_tree lt = (case lt of None \<Rightarrow> [] | Some t \<Rightarrow> t)"

text \<open>
  A small run: the environment above with recursion limit 20, which every input below
  stays far from, and a fresh root state.
\<close>

definition small_env :: "heap \<Rightarrow> env" where
  "small_env h = (simple_env h)\<lparr>recursion_limit := 20\<rparr>"

definition fresh_state :: state where
  "fresh_state = root_state default_args default_config"

text \<open>\<^verbatim>\<open>a = {}; a['self'] = a; b = {}; b['self'] = b\<close>, at addresses 100 and 101.\<close>

definition self_heap :: heap where
  "self_heap =
     heap_of [(50, OStr ''self''), (100, ODict [(VRef 50, VRef 100)]), (101, ODict [(VRef 50, VRef 101)])]"

text \<open>\<^verbatim>\<open>[1, 2, 3]\<close> and \<^verbatim>\<open>[3, 1, 2]\<close>, and a compare function that accepts two items when they are equal.\<close>

definition moved_heap :: heap where
  "moved_heap = heap_of [(100, OList [VRef 1, VRef 2, VRef 3]), (101, OList [VRef 3, VRef 1, VRef 2])]"

definition moved_config :: config where
  "moved_config =
     default_config\<lparr>iterable_compare_func := Some (\<lambda>x y lvl. Some (key_eq moved_heap x y))\<rparr>"


text \<open>A compare function that accepts every pair of items.\<close>

definition permissive_config :: config where
  "permissive_config = default_config\<lparr>iterable_compare_func := Some (\<lambda>x y lvl. Some True)\<rparr>"

text \<open>\<^verbatim>\<open>[1, 2]\<close> and \<^verbatim>\<open>[2, 1]\<close>; \<^verbatim>\<open>[1, 2, 3]\<close> and \<^verbatim>\<open>[1, 2, 3, 4]\<close>; \<^verbatim>\<open>[1, 2, 3, 4]\<close> and \<^verbatim>\<open>[9, 2, 3]\<close>.\<close>

definition tie_heap :: heap where
  "tie_heap = heap_of [(100, OList [VRef 1, VRef 2]), (101, OList [VRef 2, VRef 1])]"

definition short_heap :: heap where
  "short_heap =
     heap_of [(100, OList [VRef 1, VRef 2, VRef 3]), (101, OList [VRef 1, VRef 2, VRef 3, VRef 4])]"

definition budget_heap :: heap where
  "budget_heap =
     heap_of [(100, OList [VRef 1, VRef 2, VRef 3, VRef 4]), (101, OList [VRef 9, VRef 2, VRef 3])]"

definition budget_config :: config where
  "budget_config = default_config\<lparr>max_diffs := Some 1\<rparr>"

text \<open>What the two passes report for \<^verbatim>\<open>[1, 2]\<close> against \<^verbatim>\<open>[2, 1]\<close>, and the opcodes.\<close>

definition tie_lcs :: tree where
  "tie_lcs =
     [(iterable_item_added,
       branch_deeper (root_level (VRef 100) (VRef 101)) notpresent (Present (VRef 2))
         (SubscriptableIterableRelationship 0 None)),
      (iterable_item_removed,
       branch_deeper (root_level (VRef 100) (VRef 101)) (Present (VRef 2)) notpresent
         (SubscriptableIterableRelationship 1 None))]"

definition tie_positional :: tree where
  "tie_positional =
     [(values_changed,
       branch_deeper (root_level (VRef 100) (VRef 101)) (Present (VRef 1)) (Present (VRef 2))
         (SubscriptableIterableRelationship 0 None)),
      (values_changed,
       branch_deeper (root_level (VRef 100) (VRef 101)) (Present (VRef 2)) (Present (VRef 1))
         (SubscriptableIterableRelationship 1 None))]"

definition tie_opcodes :: opcodes_with_values where
  "tie_opcodes =
     [(Opcode TagInsert 0 0 0 1, Some ([], [VRef 2])),
      (Opcode TagEqual 0 1 1 2, None),
      (Opcode TagDelete 1 2 2 2, Some ([VRef 2], []))]"

text \<open>What the alignment reports for \<^verbatim>\<open>[1, 2, 3]\<close> against \<^verbatim>\<open>[1, 2, 3, 4]\<close>, and the opcodes.\<close>

definition short_lcs :: tree where
  "short_lcs =
     [(iterable_item_added,
       branch_deeper (root_level (VRef 100) (VRef 101)) notpresent (Present (VRef 4))
         (SubscriptableIterableRelationship 3 None))]"

definition short_opcodes :: opcodes_with_values where
  "short_opcodes =
     [(Opcode TagEqual 0 3 0 3, None),
      (Opcode TagInsert 3 3 3 4, Some ([], [VRef 4]))]"

text \<open>
  An entry of \<^verbatim>\<open>most_in_common_pairs\<close>: the removed hash \<open>r\<close> is kept for the added hash \<open>a\<close> at
  distance \<open>d\<close>.
\<close>

definition entry :: "most_in_common \<Rightarrow> hashkey \<Rightarrow> rat \<Rightarrow> hashkey \<Rightarrow> bool" where
  "entry m a d r = (r \<in> set (dd_get (dd_get m a) d))"

text \<open>
  What the greedy loops maintain of \<^verbatim>\<open>pairs\<close>, with \<^verbatim>\<open>used_to_hashes\<close>: one value per key,
  the two hashes of a pair are marked used and are candidates of each other, and no hash is
  the value of two keys.
\<close>

definition pairs_inv :: "(hashkey \<Rightarrow> hashkey \<Rightarrow> bool) \<Rightarrow> hashkey set \<Rightarrow> pairs \<Rightarrow> bool" where
  "pairs_inv E used P =
     (distinct (map fst P)
      \<and> (\<forall>k r. map_of P k = Some r \<longrightarrow> k \<in> used \<and> r \<in> used \<and> E k r)
      \<and> (\<forall>k k' r. map_of P k = Some r \<and> map_of P k' = Some r \<longrightarrow> k = k'))"

text \<open>
  The distances the candidate loops of \<^verbatim>\<open>_get_most_in_common_pairs_in_iterables\<close> compute,
  in the order they compute them: the same two loops, the same skip of a detected loop and
  the same distance, with each computed distance written down instead of being tested
  against the cutoff.
\<close>

type_synonym trace = "((hashkey \<times> hashkey) \<times> rat) list"

definition trace_body ::
  "differ \<Rightarrow> env \<Rightarrow> config \<Rightarrow> hashtable \<Rightarrow> hashtable \<Rightarrow> val set \<Rightarrow>
   ((hashkey \<times> hashkey) \<times> rat) list option \<Rightarrow> hashkey \<Rightarrow> hashkey \<Rightarrow>
   trace \<times> state \<Rightarrow> error + (trace \<times> state)" where
  "trace_body rec env cfg t1_hashtable t2_hashtable parents_ids pre_calced_distances added_hash removed_hash =
     (\<lambda>(trace, st).
        case (map_of t2_hashtable added_hash, map_of t1_hashtable removed_hash) of
          (Some added_hash_obj, Some removed_hash_obj) \<Rightarrow>
            if loop_detected removed_hash_obj parents_ids then Inr (trace, st)
            else
              bind_res
                (candidate_distance rec env cfg pre_calced_distances added_hash removed_hash
                   added_hash_obj removed_hash_obj st)
                (\<lambda>(distance, st1). Inr (trace @ [((added_hash, removed_hash), distance)], st1))
        | _ \<Rightarrow> Inl KeyError)"

definition computed_distances ::
  "differ \<Rightarrow> env \<Rightarrow> config \<Rightarrow> hashkey list \<Rightarrow> hashkey list \<Rightarrow> hashtable \<Rightarrow> hashtable \<Rightarrow> val set \<Rightarrow>
   ((hashkey \<times> hashkey) \<times> rat) list option \<Rightarrow> state \<Rightarrow> error + (trace \<times> state)" where
  "computed_distances rec env cfg hashes_added hashes_removed t1_hashtable t2_hashtable parents_ids pre_calced_distances st =
     fold_res (\<lambda>added_hash.
                 fold_res (trace_body rec env cfg t1_hashtable t2_hashtable parents_ids
                             pre_calced_distances added_hash)
                          hashes_removed)
              hashes_added ([], st)"

text \<open>What a list of computed distances leaves in \<^verbatim>\<open>most_in_common_pairs\<close>.\<close>

definition survivor_step :: "rat \<Rightarrow> (hashkey \<times> hashkey) \<times> rat \<Rightarrow> most_in_common \<Rightarrow> most_in_common" where
  "survivor_step cutoff = (\<lambda>((a, r), d) m. if d \<ge> cutoff then m else mic_add m a d r)"

definition survivors :: "rat \<Rightarrow> trace \<Rightarrow> most_in_common" where
  "survivors cutoff trace = fold (survivor_step cutoff) trace []"

text \<open>The pairing is answered from the cache: the cache is enabled and holds the key.\<close>

definition pairs_cache_hit :: "state \<Rightarrow> hashkey list \<Rightarrow> hashkey list \<Rightarrow> bool" where
  "pairs_cache_hit st hashes_added hashes_removed =
     (DISTANCE_CACHE_ENABLED st
      \<and> lfu_contains (distance_cache st) (PairsKey (sort hashes_added) (sort hashes_removed)))"

text \<open>
  Order ignored. \<^verbatim>\<open>[0, 10, 7, 8]\<close> and \<^verbatim>\<open>[20, 7, 8]\<close>: of the removed 0 and 10, only 10 is
  near the added 20. \<^verbatim>\<open>[10, 40, 7, 8]\<close> and \<^verbatim>\<open>[20, 7, 8]\<close>: 10 and 40 are at the same
  distance from 20. \<^verbatim>\<open>[10, 40, 7, 8, 9]\<close> and \<^verbatim>\<open>[20, 5, 7, 8, 9]\<close>: 10 and 40 are at the
  same distance from 20, and 10 is as near to 5.
\<close>

definition unordered_config :: config where
  "unordered_config = default_config\<lparr>ignore_order := True\<rparr>"

definition near_heap :: heap where
  "near_heap = heap_of [(100, OList [VRef 0, VRef 10, VRef 7, VRef 8]), (101, OList [VRef 20, VRef 7, VRef 8])]"

definition twins_heap :: heap where
  "twins_heap = heap_of [(100, OList [VRef 10, VRef 40, VRef 7, VRef 8]), (101, OList [VRef 20, VRef 7, VRef 8])]"

definition crowd_heap :: heap where
  "crowd_heap =
     heap_of [(100, OList [VRef 10, VRef 40, VRef 7, VRef 8, VRef 9]),
              (101, OList [VRef 20, VRef 5, VRef 7, VRef 8, VRef 9])]"







text \<open>A hash table whose keys are distinct and whose buckets each hold an index.\<close>

definition buckets_ok :: "hashtable \<Rightarrow> bool" where
  "buckets_ok h = (distinct (map fst h) \<and> list_all (\<lambda>(k, ih). indexes ih \<noteq> []) h)"











section \<open>The diff counter\<close>

lemma auto_off_cache_frame:
  "auto_off_cache st = Inr st1 \<Longrightarrow>
     DIFF_COUNT st1 = DIFF_COUNT st \<and> tree st1 = tree st \<and> warnings st1 = warnings st
     \<and> MAX_DIFF_LIMIT_REACHED st1 = MAX_DIFF_LIMIT_REACHED st"
  by (auto simp: auto_off_cache_def Let_def split: if_splits)

lemma auto_tune_cache_frame:
  "auto_tune_cache cfg st = Inr st1 \<Longrightarrow>
     DIFF_COUNT st1 = DIFF_COUNT st \<and> tree st1 = tree st \<and> warnings st1 = warnings st
     \<and> MAX_DIFF_LIMIT_REACHED st1 = MAX_DIFF_LIMIT_REACHED st"
  by (auto simp: auto_tune_cache_def Let_def bind_res_def split: if_splits sum.splits
           dest: auto_off_cache_frame)

lemma counted_frame:
  "counted cfg st = Inr (sig, st1) \<Longrightarrow>
     sig = Continue \<and> DIFF_COUNT st1 = DIFF_COUNT st + 1 \<and> tree st1 = tree st
     \<and> warnings st1 = warnings st \<and> MAX_DIFF_LIMIT_REACHED st1 = MAX_DIFF_LIMIT_REACHED st"
  by (auto simp: counted_def Let_def bind_res_def split: if_splits sum.splits
           dest: auto_tune_cache_frame)

lemma count_diff_Stop:
  "count_diff cfg st = Inr (StopIteration, st1) \<Longrightarrow>
     limit_exceeded cfg st \<and> DIFF_COUNT st1 = DIFF_COUNT st \<and> tree st1 = tree st"
  by (auto simp: count_diff_def limit_exceeded_def split: option.splits if_splits dest: counted_frame)

lemma count_diff_Continue:
  "count_diff cfg st = Inr (Continue, st1) \<Longrightarrow>
     \<not> limit_exceeded cfg st \<and> DIFF_COUNT st1 = DIFF_COUNT st + 1 \<and> tree st1 = tree st"
  by (auto simp: count_diff_def limit_exceeded_def split: option.splits if_splits dest: counted_frame)

lemma custom_report_result_DIFF_COUNT:
  "DIFF_COUNT (fold (custom_report_result env cfg) rs st) = DIFF_COUNT st"
  by (induction rs arbitrary: st) (auto simp: custom_report_result_def)

lemma use_custom_operator_DIFF_COUNT:
  "DIFF_COUNT (snd (use_custom_operator env cfg ops lvl st)) = DIFF_COUNT st"
  by (induction ops arbitrary: st)
     (auto simp: Let_def custom_report_result_DIFF_COUNT split: prod.splits)

lemma use_custom_operator_fst:
  "fst (use_custom_operator env cfg ops lvl st)
     = list_ex (\<lambda>operator. op_match operator lvl \<and> fst (give_up_diffing operator lvl)) ops"
  by (induction ops arbitrary: st) (auto simp: Let_def split: prod.splits)

lemma count_diff_ok:
  assumes "tune_ok cfg st"
  shows "\<exists>sig st1. count_diff cfg st = Inr (sig, st1) \<and> tune_ok cfg st1 \<and> tree st1 = tree st"
  using assms
  by (auto simp: tune_ok_def count_diff_def counted_def auto_tune_cache_def auto_off_cache_def
        Let_def bind_res_def split: option.splits)

text \<open>
  Counts are never taken back: through every part of the engine, and so through every call
  of the dispatch, the counter of the state returned is not behind the counter at the start.
\<close>

lemma counts_on_Inl [simp]: "counts_on prj st (Inl e)"
  by (simp add: counts_on_def)

lemma counts_on_Inr [simp]: "counts_on prj st (Inr x) = (DIFF_COUNT st \<le> DIFF_COUNT (prj x))"
  by (simp add: counts_on_def)

lemma counts_on_trans:
  "DIFF_COUNT st \<le> DIFF_COUNT st1 \<Longrightarrow> counts_on prj st1 r \<Longrightarrow> counts_on prj st r"
  by (cases r) auto

lemma counts_on_bind:
  assumes "counts_on p1 st m" and "\<And>x. m = Inr x \<Longrightarrow> counts_on p2 (p1 x) (f x)"
  shows "counts_on p2 st (bind_res m f)"
proof (cases m)
  case (Inl e)
  then show ?thesis by (simp add: bind_res_def)
next
  case (Inr x)
  then show ?thesis
    using assms(1) assms(2)[OF Inr] by (simp add: bind_res_def counts_on_trans)
qed

lemma for_loop_counts:
  assumes "\<And>x s. counts_on (\<lambda>r. c (snd r)) (c s) (body x s)"
  shows "counts_on (\<lambda>r. c (snd r)) (c s) (for_loop body xs s)"
proof (induction xs arbitrary: s)
  case Nil
  then show ?case by simp
next
  case (Cons x xs)
  show ?case
  proof (cases "body x s")
    case (Inl e)
    then show ?thesis by simp
  next
    case (Inr r)
    obtain sig s1 where r: "r = (sig, s1)" by (cases r)
    have le: "DIFF_COUNT (c s) \<le> DIFF_COUNT (c s1)" using assms[of s x] Inr r by simp
    show ?thesis
      using Inr r le Cons.IH[of s1] by (cases sig) (auto intro: counts_on_trans)
  qed
qed

lemma fold_res_counts:
  assumes "\<And>x s. counts_on c (c s) (f x s)"
  shows "counts_on c (c s) (fold_res f xs s)"
proof (induction xs arbitrary: s)
  case Nil
  then show ?case by simp
next
  case (Cons x xs)
  show ?case
  proof (cases "f x s")
    case (Inl e)
    then show ?thesis by simp
  next
    case (Inr s1)
    have le: "DIFF_COUNT (c s) \<le> DIFF_COUNT (c s1)" using assms[of s x] Inr by simp
    show ?thesis using Inr le Cons.IH[of s1] by (auto intro: counts_on_trans)
  qed
qed

lemma count_diff_counts_on: "counts_on snd st (count_diff cfg st)"
proof (cases "count_diff cfg st")
  case (Inl e)
  then show ?thesis by simp
next
  case (Inr r)
  obtain sig st1 where r: "r = (sig, st1)" by (cases r)
  show ?thesis
    using Inr r count_diff_Stop[of cfg st st1] count_diff_Continue[of cfg st st1]
    by (cases sig) auto
qed

lemma budgeted_counts:
  assumes "\<And>x st1. counts_on (\<lambda>r. snd (snd r)) st1 (f (x, st1))"
  shows "counts_on (\<lambda>r. snd (snd r)) (snd s) (budgeted cfg f s)"
proof -
  obtain x st where s: "s = (x, st)" by (cases s)
  show ?thesis
  proof (cases "count_diff cfg st")
    case (Inl e)
    then show ?thesis by (simp add: budgeted_def s)
  next
    case (Inr r)
    obtain sig st1 where r: "r = (sig, st1)" by (cases r)
    have le: "DIFF_COUNT st \<le> DIFF_COUNT st1"
      using count_diff_counts_on[of st cfg] Inr r by simp
    show ?thesis
      using Inr r le assms[of st1 x]
      by (cases sig) (auto simp: budgeted_def s intro: counts_on_trans)
  qed
qed

lemma report_result_count: "DIFF_COUNT (snd (report_result env cfg k l lt st)) = DIFF_COUNT st"
  by (simp add: report_result_def split: option.splits)

lemma fold_report_count:
  "DIFF_COUNT (snd (fold (\<lambda>x (lt, s). report_result env cfg k (f x) lt s) xs (lt, st))) = DIFF_COUNT st"
proof (induction xs arbitrary: lt st)
  case Nil
  then show ?case by simp
next
  case (Cons x xs)
  obtain lt1 st1 where r: "report_result env cfg k (f x) lt st = (lt1, st1)" by force
  have "DIFF_COUNT st1 = DIFF_COUNT st" using report_result_count[of env cfg k "f x" lt st] r by simp
  then show ?case using Cons.IH[of lt1 st1] r by simp
qed

lemma continue_counts:
  "counts_on snd st r \<Longrightarrow> counts_on (\<lambda>r. snd (snd r)) st (continue r)"
  by (cases r) (auto simp: continue_def bind_res_def)

lemma finish_counts:
  "counts_on (\<lambda>r. snd (snd r)) st r \<Longrightarrow> counts_on snd st (finish r)"
  by (cases r) (auto simp: finish_def bind_res_def)

lemma diff_booleans_counts: "counts_on snd st (diff_booleans env cfg lvl lt st)"
  by (cases "level_eq env lvl") (auto simp: diff_booleans_def bind_res_def report_result_count)

lemma diff_str_counts: "counts_on snd st (diff_str env cfg lvl lt st)"
  by (cases "level_eq env lvl") (auto simp: diff_str_def bind_res_def report_result_count)

lemma diff_numbers_counts: "counts_on snd st (diff_numbers env cfg lvl lt st)"
  by (cases "level_eq env lvl")
     (auto simp: diff_numbers_def bind_res_def report_result_count split: option.splits side.splits)

lemma dict_added_body_counts:
  "counts_on (\<lambda>r. snd (snd r)) (snd s) (dict_added_body env cfg lvl d2 key s)"
  unfolding dict_added_body_def
  by (rule budgeted_counts) (auto simp: report_result_count split: option.splits)

lemma dict_removed_body_counts:
  "counts_on (\<lambda>r. snd (snd r)) (snd s) (dict_removed_body env cfg lvl d1 key s)"
  unfolding dict_removed_body_def
  by (rule budgeted_counts) (auto simp: report_result_count split: option.splits)

lemma dict_common_body_counts:
  assumes "counting rec"
  shows "counts_on (\<lambda>r. snd (snd r)) (snd s) (dict_common_body rec env cfg lvl d1 d2 par key s)"
  unfolding dict_common_body_def
  using assms
  by (intro budgeted_counts) (auto simp: counting_def intro!: continue_counts split: option.splits)

lemma for_loop_counts_out:
  assumes "\<And>x s. counts_on (\<lambda>r. snd (snd r)) (snd s) (body x s)"
  shows "counts_on (\<lambda>r. snd (snd r)) st (for_loop body xs (x0, st))"
  using for_loop_counts[where c=snd and body=body and s="(x0, st)" and xs=xs] assms by simp

lemma for_loop_counts_snd:
  assumes "\<And>x s. counts_on (\<lambda>r. snd (snd r)) (snd s) (body x s)"
  shows "counts_on (\<lambda>r. snd (snd r)) (snd s) (for_loop body xs s)"
  using for_loop_counts[where c=snd and body=body and s=s and xs=xs] assms by simp

lemma seq_counts:
  assumes "counts_on (\<lambda>r. snd (snd r)) st A"
    and "\<And>s1. counts_on (\<lambda>r. snd (snd r)) (snd s1) (B s1)"
  shows "counts_on (\<lambda>r. snd (snd r)) st
           (case A of Inl e \<Rightarrow> Inl e
            | Inr (StopIteration, s1) \<Rightarrow> Inr (StopIteration, s1)
            | Inr (Continue, s1) \<Rightarrow> B s1)"
proof (cases A)
  case (Inl e)
  then show ?thesis by simp
next
  case (Inr r)
  obtain sig s1 where r: "r = (sig, s1)" by (cases r)
  have le: "DIFF_COUNT st \<le> DIFF_COUNT (snd s1)" using assms(1) Inr r by simp
  show ?thesis using Inr r le assms(2)[of s1] by (cases sig) (auto intro: counts_on_trans)
qed

lemma diff_dict_counts:
  assumes c: "counting rec"
  shows "counts_on snd st (diff_dict rec env cfg lvl parents_ids local_tree st)"
proof -
  have L: "counts_on (\<lambda>r. snd (snd r)) st
             (case for_loop (dict_added_body env cfg lvl d2) ka (local_tree, st) of
                Inl e \<Rightarrow> Inl e
              | Inr (StopIteration, s1) \<Rightarrow> Inr (StopIteration, s1)
              | Inr (Continue, s1) \<Rightarrow>
                  (case for_loop (dict_removed_body env cfg lvl d1) kr s1 of
                     Inl e \<Rightarrow> Inl e
                   | Inr (StopIteration, s2) \<Rightarrow> Inr (StopIteration, s2)
                   | Inr (Continue, s2) \<Rightarrow>
                       for_loop (dict_common_body rec env cfg lvl d1 d2 parents_ids) ki s2))"
    for d1 d2 ka kr ki
    by (intro seq_counts for_loop_counts_out for_loop_counts_snd dict_added_body_counts
          dict_removed_body_counts dict_common_body_counts[OF c])
  show ?thesis
    unfolding diff_dict_def Let_def
    by (auto split: side.splits val.splits obj.splits intro!: finish_counts L)
qed

lemma pair_body_counts:
  assumes c: "counting rec"
  shows "counts_on (\<lambda>r. snd (snd r)) (snd s) (pair_body rec env cfg lvl parents_ids m s)"
  unfolding pair_body_def
  using c
  by (intro budgeted_counts)
     (auto simp: counting_def report_result_count intro!: continue_counts
           split: prod.splits pairing.splits sum.splits bool.splits option.splits)

lemma diff_by_forming_pairs_counts:
  assumes c: "counting rec"
  shows "counts_on snd st (diff_by_forming_pairs_and_comparing_one_by_one rec env cfg lvl a b rng
                             parents_ids local_tree st)"
proof (cases "get_matching_pairs env cfg lvl a b rng")
  case (Inl e)
  then show ?thesis by (simp add: diff_by_forming_pairs_and_comparing_one_by_one_def bind_res_def)
next
  case (Inr ms)
  have "counts_on snd st (finish (for_loop (pair_body rec env cfg lvl parents_ids) ms (local_tree, st)))"
    by (intro finish_counts for_loop_counts_out pair_body_counts[OF c])
  then show ?thesis using Inr by (simp add: diff_by_forming_pairs_and_comparing_one_by_one_def bind_res_def)
qed

lemma fold_keeps_count:
  assumes "\<And>x lt s. DIFF_COUNT (snd (g x (lt, s))) = DIFF_COUNT s"
  shows "DIFF_COUNT (snd (fold g xs (lt, st))) = DIFF_COUNT st"
proof (induction xs arbitrary: lt st)
  case Nil
  then show ?case by simp
next
  case (Cons x xs)
  obtain lt1 st1 where r: "g x (lt, st) = (lt1, st1)" by force
  have "DIFF_COUNT st1 = DIFF_COUNT st" using assms[of x lt st] r by simp
  then show ?case using Cons.IH[of lt1 st1] r by simp
qed

lemma opcode_body_counts:
  assumes c: "counting rec"
  shows "counts_on (\<lambda>r. snd (snd r)) (snd (snd s)) (opcode_body rec env cfg lvl a b parents_ids oc s)"
proof -
  obtain ows lt st where s: "s = (ows, (lt, st))" by (cases s) auto
  obtain tg i1 i2 j1 j2 where oc: "oc = Opcode tg i1 i2 j1 j2" by (cases oc)
  have R: "counts_on (\<lambda>r. snd (snd r)) st
             (bind_res (diff_by_forming_pairs_and_comparing_one_by_one rec env cfg lvl a b rng
                          parents_ids lt st) (\<lambda>s1. Inr (ops, s1)))" for rng ops
    by (rule counts_on_bind[where ?p1.0=snd]) (auto intro: diff_by_forming_pairs_counts[OF c])
  have D: "DIFF_COUNT (snd (fold (\<lambda>(index, x) (lt, s).
                          report_result env cfg k (f index x) lt s) xs (lt, st))) = DIFF_COUNT st"
    for k f and xs :: "(nat \<times> val) list"
    by (rule fold_keeps_count) (auto simp: report_result_count split: prod.splits)
  show ?thesis
    unfolding s oc by (simp add: Let_def R D)
qed

lemma diff_ordered_iterable_by_difflib_counts:
  assumes c: "counting rec"
  shows "counts_on (\<lambda>r. snd (snd r)) st
           (diff_ordered_iterable_by_difflib rec env cfg lvl a b parents_ids local_tree st)"
  unfolding diff_ordered_iterable_by_difflib_def
  using fold_res_counts[where c="\<lambda>s. snd (snd s)" and f="opcode_body rec env cfg lvl a b parents_ids"
          and s="([], (local_tree, st))" and xs="get_opcodes env a b"]
        opcode_body_counts[OF c]
  by simp

lemma merge_into_tree_count: "DIFF_COUNT (merge_into_tree lt st) = DIFF_COUNT st"
  by (simp add: merge_into_tree_def split: option.splits)

lemma diff_iterable_in_order_counts:
  assumes c: "counting rec"
  shows "counts_on snd st (diff_iterable_in_order rec env cfg lvl parents_ids local_tree st)"
proof -
  have two: "counts_on snd st
     (bind_res (diff_ordered_iterable_by_difflib rec env cfg lvl a b parents_ids (Some []) st)
        (\<lambda>(opcodes_with_values, (local_tree_pass, st1)).
           if tree_len local_tree_pass > 1 then
             bind_res (diff_by_forming_pairs_and_comparing_one_by_one rec env cfg lvl a b None
                         parents_ids (Some []) st1)
               (\<lambda>(local_tree_pass2, st2).
                  if tree_len local_tree_pass \<ge> tree_len local_tree_pass2
                  then Inr (local_tree, merge_into_tree local_tree_pass2 st2)
                  else Inr (local_tree,
                            merge_into_tree local_tree_pass
                              (st2\<lparr>iterable_opcodes :=
                                      AList.update (level_path (heap env) lvl) opcodes_with_values
                                        (iterable_opcodes st2)\<rparr>)))
           else Inr (local_tree, merge_into_tree local_tree_pass st1)))" for a b
  proof (rule counts_on_bind[where ?p1.0="\<lambda>r. snd (snd r)"])
    show "counts_on (\<lambda>r. snd (snd r)) st
            (diff_ordered_iterable_by_difflib rec env cfg lvl a b parents_ids (Some []) st)"
      by (rule diff_ordered_iterable_by_difflib_counts[OF c])
  next
    fix x :: "opcodes_with_values \<times> out"
    obtain ows ltp st1 where x: "x = (ows, (ltp, st1))" by (cases x) auto
    have inner: "counts_on snd st1
       (bind_res (diff_by_forming_pairs_and_comparing_one_by_one rec env cfg lvl a b None
                         parents_ids (Some []) st1)
               (\<lambda>(local_tree_pass2, st2).
                  if tree_len ltp \<ge> tree_len local_tree_pass2
                  then Inr (local_tree, merge_into_tree local_tree_pass2 st2)
                  else Inr (local_tree,
                            merge_into_tree ltp
                              (st2\<lparr>iterable_opcodes :=
                                      AList.update (level_path (heap env) lvl) ows
                                        (iterable_opcodes st2)\<rparr>))))"
      by (rule counts_on_bind[where ?p1.0=snd])
         (auto intro: diff_by_forming_pairs_counts[OF c] simp: merge_into_tree_count split: prod.splits)
    show "counts_on snd (snd (snd x))
           (case x of (opcodes_with_values, (local_tree_pass, st1)) \<Rightarrow>
           if tree_len local_tree_pass > 1 then
             bind_res (diff_by_forming_pairs_and_comparing_one_by_one rec env cfg lvl a b None
                         parents_ids (Some []) st1)
               (\<lambda>(local_tree_pass2, st2).
                  if tree_len local_tree_pass \<ge> tree_len local_tree_pass2
                  then Inr (local_tree, merge_into_tree local_tree_pass2 st2)
                  else Inr (local_tree,
                            merge_into_tree local_tree_pass
                              (st2\<lparr>iterable_opcodes :=
                                      AList.update (level_path (heap env) lvl) opcodes_with_values
                                        (iterable_opcodes st2)\<rparr>)))
           else Inr (local_tree, merge_into_tree local_tree_pass st1))"
      unfolding x using inner by (simp add: merge_into_tree_count)
  qed
  show ?thesis
    unfolding diff_iterable_in_order_def
    by (auto split: side.splits val.splits obj.splits simp del: One_nat_def
             intro!: two diff_by_forming_pairs_counts[OF c])
qed

lemma get_view_results_count:
  "get_view_results h cfg st = Inr st' \<Longrightarrow> DIFF_COUNT st' = DIFF_COUNT st"
  by (auto simp: get_view_results_def Let_def split: view.splits if_splits)

lemma nested_DeepDiff_counts:
  assumes c: "counting rec"
  shows "counts_on id st (nested_DeepDiff rec env cfg a b st)"
proof (cases "rec (root_level a b) {a} None (st\<lparr>tree := [], iterable_opcodes := []\<rparr>)")
  case (Inl e)
  then show ?thesis by (simp add: nested_DeepDiff_def bind_res_def)
next
  case (Inr r)
  obtain lt st1 where r: "r = (lt, st1)" by (cases r)
  have le: "DIFF_COUNT st \<le> DIFF_COUNT st1"
    using c Inr r
    by (auto simp: counting_def counts_on_def
             dest!: spec[where x="root_level a b"] spec[where x="{a}"] spec[where x=None]
                    spec[where x="st\<lparr>tree := [], iterable_opcodes := []\<rparr>"])
  show ?thesis
  proof (cases "get_view_results (heap env) cfg st1")
    case (Inl e)
    then show ?thesis using Inr r by (simp add: nested_DeepDiff_def bind_res_def)
  next
    case v: (Inr st2)
    then show ?thesis
      using Inr r le get_view_results_count[OF v] by (simp add: nested_DeepDiff_def bind_res_def)
  qed
qed

lemma distance_miss_counts:
  assumes c: "counting rec"
    and fin: "\<And>st1 distance. counts_on snd st1 (fin st1 distance)"
  shows "counts_on snd st
     (bind_res (nested_DeepDiff rec env cfg r a st) (\<lambda>st1.
        bind_res (get_rough_distance env cfg (tree st1) r a) (\<lambda>distance. fin st1 distance)))"
proof (rule counts_on_bind[where ?p1.0=id])
  show "counts_on id st (nested_DeepDiff rec env cfg r a st)"
    by (rule nested_DeepDiff_counts[OF c])
next
  fix st1 :: state
  show "counts_on snd (id st1)
      (bind_res (get_rough_distance env cfg (tree st1) r a) (\<lambda>distance. fin st1 distance))"
    using fin[of st1]
    by (cases "get_rough_distance env cfg (tree st1) r a") (auto simp: bind_res_def)
qed

lemma get_rough_distance_of_hashed_objs_counts:
  assumes c: "counting rec"
  shows "counts_on snd st (get_rough_distance_of_hashed_objs rec env cfg added_hash removed_hash
                             added_hash_obj removed_hash_obj st)"
  unfolding get_rough_distance_of_hashed_objs_def Let_def
  by (auto split: option.splits prod.splits cache_val.splits side.splits
           intro!: distance_miss_counts[OF c])

lemma candidate_distance_counts:
  assumes c: "counting rec"
  shows "counts_on snd st (candidate_distance rec env cfg pre added_hash removed_hash
                             added_hash_obj removed_hash_obj st)"
  unfolding candidate_distance_def
  by (auto split: option.splits intro!: get_rough_distance_of_hashed_objs_counts[OF c])

lemma candidate_body_counts:
  assumes c: "counting rec"
  shows "counts_on snd (snd s) (candidate_body rec env cfg t1_hashtable t2_hashtable parents_ids pre
                                   added_hash removed_hash s)"
proof -
  obtain mic st where s: "s = (mic, st)" by (cases s)
  have D: "counts_on snd st
     (bind_res (candidate_distance rec env cfg pre added_hash removed_hash a r st)
        (\<lambda>(distance, st1).
           if distance \<ge> cutoff_distance_for_pairs cfg then Inr (mic, st1)
           else Inr (mic_add mic added_hash distance removed_hash, st1)))" for a r
    by (rule counts_on_bind[where ?p1.0=snd])
       (auto intro: candidate_distance_counts[OF c] split: prod.splits)
  show ?thesis
    unfolding candidate_body_def s
    by (auto split: option.splits intro!: D)
qed

lemma candidates_counts:
  assumes c: "counting rec"
  shows "counts_on snd st (candidates rec env cfg hashes_added hashes_removed t1_hashtable t2_hashtable
                             parents_ids pre st)"
proof -
  have inner: "counts_on snd (snd s)
     (fold_res (candidate_body rec env cfg t1_hashtable t2_hashtable parents_ids pre added_hash)
        hashes_removed s)" for added_hash s
    by (rule fold_res_counts[where c=snd]) (rule candidate_body_counts[OF c])
  show ?thesis
    unfolding candidates_def
    using fold_res_counts[where c=snd and s="([], st)" and xs=hashes_added
            and f="\<lambda>added_hash. fold_res (candidate_body rec env cfg t1_hashtable t2_hashtable
                                              parents_ids pre added_hash) hashes_removed"]
          inner
    by simp
qed

lemma pairs_miss_counts:
  assumes c: "counting rec"
    and fin: "\<And>most_in_common_pairs st1. counts_on snd st1 (fin most_in_common_pairs st1)"
  shows "counts_on snd st
     (bind_res (candidates rec env cfg hashes_added hashes_removed t1_hashtable t2_hashtable
                  parents_ids pre st)
        (\<lambda>(most_in_common_pairs, st1). fin most_in_common_pairs st1))"
  by (rule counts_on_bind[where ?p1.0=snd])
     (auto intro: candidates_counts[OF c] fin split: prod.splits)

lemma get_most_in_common_pairs_in_iterables_counts:
  assumes c: "counting rec"
  shows "counts_on snd st (get_most_in_common_pairs_in_iterables rec env cfg hashes_added hashes_removed
                             t1_hashtable t2_hashtable parents_ids st)"
  unfolding get_most_in_common_pairs_in_iterables_def Let_def
  by (auto split: option.splits prod.splits cache_val.splits intro!: pairs_miss_counts[OF c])

lemma pairing_phase_counts:
  assumes c: "counting rec"
  shows "counts_on snd st (pairing_phase rec env cfg get_pairs hashes_added hashes_removed
                             t1_hashtable t2_hashtable parents_ids st)"
proof -
  have "counts_on snd (st\<lparr>PASSES_COUNT := PASSES_COUNT st + 1\<rparr>)
          (get_most_in_common_pairs_in_iterables rec env cfg hashes_added hashes_removed
             t1_hashtable t2_hashtable parents_ids (st\<lparr>PASSES_COUNT := PASSES_COUNT st + 1\<rparr>))"
    by (rule get_most_in_common_pairs_in_iterables_counts[OF c])
  then have "counts_on snd st
          (get_most_in_common_pairs_in_iterables rec env cfg hashes_added hashes_removed
             t1_hashtable t2_hashtable parents_ids (st\<lparr>PASSES_COUNT := PASSES_COUNT st + 1\<rparr>))"
    by (rule counts_on_trans[rotated]) simp
  then show ?thesis
    unfolding pairing_phase_def by auto
qed

lemma rec_fold_counts:
  assumes c: "counting rec"
  shows "counts_on snd st (fold_res (\<lambda>i (lt, s). rec (L i) P lt s) idxs (lt0, st))"
proof -
  have "counts_on snd (snd s) ((\<lambda>i (lt, s). rec (L i) P lt s) x s)" for x s
    using c by (cases s) (simp add: counting_def)
  from fold_res_counts[where c=snd and f="\<lambda>i (lt, s). rec (L i) P lt s" and s="(lt0, st)" and xs=idxs, OF this]
  show ?thesis by simp
qed

lemma then_continue_counts:
  assumes "counts_on snd st m"
  shows "counts_on (\<lambda>r. snd (snd r)) st (bind_res m (\<lambda>(lt1, st1). Inr (Continue, (X lt1, st1))))"
  using assms by (cases m) (auto simp: bind_res_def split: prod.splits)

lemma report_fold_continue_counts:
  "counts_on (\<lambda>r. snd (snd r)) st
     (let (lt1, st1) = fold (\<lambda>i (lt, s). report_result env cfg k (L i) lt s) idxs (lt0, st)
      in Inr (Continue, (X lt1, st1)))"
proof -
  have "DIFF_COUNT (snd (fold (\<lambda>i (lt, s). report_result env cfg k (L i) lt s) idxs (lt0, st)))
          = DIFF_COUNT st"
    by (rule fold_keeps_count) (simp add: report_result_count)
  then show ?thesis by (auto split: prod.splits)
qed

lemma report_continue_counts:
  "counts_on (\<lambda>r. snd (snd r)) st
     (let (lt1, st1) = report_result env cfg k l lt0 st in Inr (Continue, (X lt1, st1)))"
  using report_result_count[of env cfg k l lt0 st] by (auto split: prod.splits)

lemma added_hash_body_counts:
  assumes c: "counting rec"
  shows "counts_on (\<lambda>r. snd (snd r)) (snd s)
           (added_hash_body rec env cfg lvl t1_hashtable t2_hashtable parents_ids hash_value s)"
  unfolding added_hash_body_def
proof (rule budgeted_counts, goal_cases)
  case (1 x st1)
  obtain pairs hr lt where x: "x = (pairs, hr, lt)" by (cases x) auto
  show ?case
  proof (cases "get_other_pair hash_value t1_hashtable (pairs, hr)")
    case (Inl e)
    then show ?thesis by (simp add: x)
  next
    case (Inr r)
    obtain other pairs1 hr1 where r: "r = (other, pairs1, hr1)" by (cases r) auto
    show ?thesis
    proof (cases "map_of t2_hashtable hash_value")
      case None
      then show ?thesis using Inr r by (simp add: x)
    next
      case (Some ih)
      have recc: "counts_on snd st1 (rec l p lt st1)" for l p
        using c by (simp add: counting_def)
      note one = then_continue_counts[where X="\<lambda>lt1. (pairs1, hr1, lt1)", OF recc]
      show ?thesis
      proof (cases "item other")
        case notpresent
        show ?thesis
        proof (cases "report_repetition cfg")
          case True
          show ?thesis
            using Inr r Some notpresent True
              report_fold_continue_counts[of st1 env cfg iterable_item_added
                "\<lambda>i. branch_deeper lvl notpresent (item ih) (SubscriptableIterableRelationship i None)"
                "indexes ih" lt "\<lambda>lt1. (pairs1, hr1, lt1)"]
            by (simp add: x)
        next
          case False
          show ?thesis
          proof (cases "indexes ih")
            case Nil
            then show ?thesis using Inr r Some notpresent False by (simp add: x)
          next
            case (Cons index rest)
            show ?thesis
              using Inr r Some notpresent False Cons
                report_continue_counts[of st1 env cfg iterable_item_added
                  "branch_deeper lvl notpresent (item ih) (SubscriptableIterableRelationship index None)"
                  lt "\<lambda>lt1. (pairs1, hr1, lt1)"]
              by (simp add: x)
          qed
        qed
      next
        case (Present other_item)
        show ?thesis
        proof (cases "report_repetition cfg")
          case True
          show ?thesis
            using Inr r Some Present True
              then_continue_counts[OF rec_fold_counts[OF c, of st1
                  "\<lambda>i. branch_deeper lvl (Present other_item) (item ih) (SubscriptableIterableRelationship i None)"
                  "insert other_item parents_ids" "indexes other" lt], of "\<lambda>lt1. (pairs1, hr1, lt1)"]
            by (simp add: x)
        next
          case False
          show ?thesis
          proof (cases "indexes other")
            case Nil
            then show ?thesis using Inr r Some Present False by (simp add: x)
          next
            case (Cons index rest)
            show ?thesis
              using Inr r Some Present False Cons
                one[of "branch_deeper lvl (Present other_item) (item ih)
                          (SubscriptableIterableRelationship index None)" "insert other_item parents_ids"]
              by (simp add: x)
          qed
        qed
      qed
    qed
  qed
qed

lemma removed_hash_body_counts:
  assumes c: "counting rec"
  shows "counts_on (\<lambda>r. snd (snd r)) (snd s)
           (removed_hash_body rec env cfg lvl t1_hashtable t2_hashtable parents_ids hash_value s)"
  unfolding removed_hash_body_def
proof (rule budgeted_counts, goal_cases)
  case (1 x st1)
  obtain pairs ha lt where x: "x = (pairs, ha, lt)" by (cases x) auto
  show ?case
  proof (cases "get_other_pair hash_value t2_hashtable (pairs, ha)")
    case (Inl e)
    then show ?thesis by (simp add: x)
  next
    case (Inr r)
    obtain other pairs1 ha1 where r: "r = (other, pairs1, ha1)" by (cases r) auto
    show ?thesis
    proof (cases "map_of t1_hashtable hash_value")
      case None
      then show ?thesis using Inr r by (simp add: x)
    next
      case (Some ih)
      show ?thesis
      proof (cases "if report_repetition cfg then Inr (indexes ih)
                    else (case indexes ih of [] \<Rightarrow> Inl IndexError | index # _ \<Rightarrow> Inr [index])")
        case il: (Inl e)
        show ?thesis using Inr r Some by (simp add: x il)
      next
        case ir: (Inr idxs)
        show ?thesis
        proof (cases "item other")
          case notpresent
          show ?thesis
            using Inr r Some notpresent
              report_fold_continue_counts[of st1 env cfg iterable_item_removed
                "\<lambda>i. branch_deeper lvl (item ih) notpresent (SubscriptableIterableRelationship i None)"
                idxs lt "\<lambda>lt1. (pairs1, ha1, lt1)"]
            by (simp add: x ir)
        next
          case (Present other_item)
          show ?thesis
            using Inr r Some Present
              then_continue_counts[OF rec_fold_counts[OF c, of st1
                  "\<lambda>i. branch_deeper lvl (item ih) (Present other_item) (SubscriptableIterableRelationship i None)"
                  "insert other_item parents_ids" idxs lt], of "\<lambda>lt1. (pairs1, ha1, lt1)"]
            by (simp add: x ir)
        qed
      qed
    qed
  qed
qed

lemma repetition_body_counts:
  "counts_on snd (snd s) (repetition_body env cfg lvl t1_hashtable t2_hashtable hash_value s)"
  unfolding repetition_body_def
  by (cases s) (auto simp: Let_def report_result_count split: option.splits list.splits)

lemma bucket_seq_counts:
  assumes "counts_on (\<lambda>r. snd (snd r)) st A"
    and "\<And>p h lt st2. counts_on snd st2 (B p h lt st2)"
  shows "counts_on snd st
           (case A of Inl e \<Rightarrow> Inl e
            | Inr (StopIteration, ((p, h, lt), st2)) \<Rightarrow> Inr (lt, st2)
            | Inr (Continue, ((p, h, lt), st2)) \<Rightarrow> B p h lt st2)"
proof (cases A)
  case (Inl e)
  then show ?thesis by simp
next
  case (Inr r)
  obtain sig p h lt st2 where r: "r = (sig, ((p, h, lt), st2))" by (cases r) auto
  have le: "DIFF_COUNT st \<le> DIFF_COUNT st2" using assms(1) Inr r by simp
  show ?thesis using Inr r le assms(2)[of st2 p h lt] by (cases sig) (auto intro: counts_on_trans)
qed

lemma report_from_buckets_counts:
  assumes c: "counting rec"
  shows "counts_on snd (snd ps)
           (report_from_buckets rec env cfg lvl t1_hashes t2_hashes hashes_added hashes_removed
              t1_hashtable t2_hashtable parents_ids local_tree ps)"
proof -
  obtain pairs st1 where ps: "ps = (pairs, st1)" by (cases ps)
  have rep: "counts_on snd st3
               (if report_repetition cfg then
                  fold_res (repetition_body env cfg lvl t1_hashtable t2_hashtable)
                    (filter (\<lambda>k. k \<in> set t1_hashes) t2_hashes) (lt2, st3)
                else Inr (lt2, st3))" for lt2 st3
    using fold_res_counts[where c=snd and f="repetition_body env cfg lvl t1_hashtable t2_hashtable"
            and s="(lt2, st3)" and xs="filter (\<lambda>k. k \<in> set t1_hashes) t2_hashes"]
          repetition_body_counts
    by simp
  show ?thesis
    unfolding report_from_buckets_def ps
    apply (simp only: prod.case snd_conv)
    apply (rule bucket_seq_counts)
     apply (rule for_loop_counts_out)
     apply (rule added_hash_body_counts[OF c])
    apply (rule bucket_seq_counts)
     apply (rule for_loop_counts_out)
     apply (rule removed_hash_body_counts[OF c])
    apply (rule rep)
    done
qed

lemma diff_iterable_with_deephash_counts:
  assumes c: "counting rec"
  shows "counts_on snd st (diff_iterable_with_deephash rec env cfg lvl parents_ids local_tree st)"
proof -
  have P: "counts_on snd st
     (bind_res (pairing_phase rec env cfg get_pairs hashes_added hashes_removed
                  t1_hashtable t2_hashtable parents_ids st)
        (report_from_buckets rec env cfg lvl t1_hashes t2_hashes hashes_added hashes_removed
           t1_hashtable t2_hashtable parents_ids local_tree))"
    for get_pairs hashes_added hashes_removed t1_hashtable t2_hashtable t1_hashes t2_hashes
    by (rule counts_on_bind[where ?p1.0=snd])
       (auto intro: pairing_phase_counts[OF c] report_from_buckets_counts[OF c])
  show ?thesis
    unfolding diff_iterable_with_deephash_def Let_def
    by (auto split: side.splits val.splits obj.splits intro!: P)
qed

lemma diff_iterable_counts:
  assumes c: "counting rec"
  shows "counts_on snd st (diff_iterable rec env cfg lvl parents_ids local_tree st)"
  unfolding diff_iterable_def
  using diff_iterable_with_deephash_counts[OF c] diff_iterable_in_order_counts[OF c]
  by simp

lemma compare_level_counts:
  assumes c: "counting rec"
  shows "counts_on snd st (compare_level rec env cfg lvl parents_ids local_tree st)"
proof -
  obtain pd st2 where uc: "use_custom_operator env cfg (custom_operators cfg) lvl st = (pd, st2)"
    by (cases "use_custom_operator env cfg (custom_operators cfg) lvl st")
  have d2: "DIFF_COUNT st2 = DIFF_COUNT st"
    using use_custom_operator_DIFF_COUNT[of env cfg "custom_operators cfg" lvl st] uc by simp
  have "counts_on snd st2 (compare_level rec env cfg lvl parents_ids local_tree st)"
    unfolding compare_level_def uc
    by (cases pd)
       (simp_all add: diff_types_def report_result_count diff_booleans_counts diff_str_counts
          diff_numbers_counts diff_dict_counts[OF c] diff_iterable_counts[OF c]
          split: pytype.splits)
  then show ?thesis
    by (rule counts_on_trans[rotated]) (simp add: d2)
qed

lemma diff_body_counts:
  assumes c: "counting rec"
  shows "counts_on snd st (diff_body rec env cfg lvl parents_ids local_tree st)"
proof (cases "count_diff cfg st")
  case (Inl e)
  then show ?thesis by (simp add: diff_body_def)
next
  case (Inr r)
  obtain sig st1 where r: "r = (sig, st1)" by (cases r)
  have le: "DIFF_COUNT st \<le> DIFF_COUNT st1"
    using count_diff_counts_on[of st cfg] Inr r by simp
  show ?thesis
    using Inr r le compare_level_counts[OF c, of st1 env cfg lvl parents_ids local_tree]
    by (cases sig) (auto simp: diff_body_def intro: counts_on_trans)
qed

lemma diff_counting: "counting (diff n env cfg)"
proof (induction n)
  case 0
  then show ?case by (simp add: counting_def)
next
  case (Suc n)
  then show ?case using diff_body_counts[of "diff n env cfg"] by (simp add: counting_def)
qed

text \<open>
  C10. The first thing a call of the main dispatch does is to consult the budget, and the
  budget counts as exceeded exactly when \<^verbatim>\<open>max_diffs\<close> is set and the counter is strictly
  greater. A call made with the budget exceeded returns at once, with neither the counter
  nor the tree changed. Every other call increments the counter by one, before anything is
  compared: if the counting itself raises, so does the call, and otherwise the call is the
  rest of the dispatch, run in the state with the counter incremented (and the counting
  does not raise from a state the cache tuning can divide by). So every such call that
  returns, at whatever level, returns a counter at least one above the one it started from;
  when the two sides are the same object, when a custom operator takes over, or when the
  filters exclude the level, exactly one above, with nothing recorded in the local tree.
  And a call made with the counter equal to \<^verbatim>\<open>max_diffs\<close> still counts and compares, and
  leaves the counter above \<^verbatim>\<open>max_diffs\<close>.
\<close>

theorem diff_counts_every_visited_level:
  "(limit_exceeded cfg st \<longleftrightarrow> (\<exists>m. max_diffs cfg = Some m \<and> m < int (DIFF_COUNT st)))
   \<and> (limit_exceeded cfg st \<longrightarrow>
        (\<exists>st1. diff (Suc n) env cfg lvl parents_ids local_tree st = Inr (local_tree, st1)
               \<and> DIFF_COUNT st1 = DIFF_COUNT st \<and> tree st1 = tree st))
   \<and> (\<not> limit_exceeded cfg st \<longrightarrow>
        (\<forall>e. count_diff cfg st = Inl e \<longrightarrow>
               diff (Suc n) env cfg lvl parents_ids local_tree st = Inl e)
        \<and> (\<forall>sig st1. count_diff cfg st = Inr (sig, st1) \<longrightarrow>
               sig = Continue \<and> DIFF_COUNT st1 = DIFF_COUNT st + 1 \<and> tree st1 = tree st
               \<and> diff (Suc n) env cfg lvl parents_ids local_tree st
                   = compare_level (diff n env cfg) env cfg lvl parents_ids local_tree st1)
        \<and> (tune_ok cfg st \<longrightarrow> (\<exists>st1. count_diff cfg st = Inr (Continue, st1))))
   \<and> (\<forall>lt' st'. diff (Suc n) env cfg lvl parents_ids local_tree st = Inr (lt', st') \<longrightarrow>
        (\<not> limit_exceeded cfg st \<longrightarrow> DIFF_COUNT st + 1 \<le> DIFF_COUNT st')
        \<and> (\<not> limit_exceeded cfg st
             \<and> (t1 lvl = t2 lvl \<or> takes_over cfg lvl \<or> skip_this env cfg lvl)
             \<longrightarrow> DIFF_COUNT st' = DIFF_COUNT st + 1 \<and> lt' = local_tree)
        \<and> (max_diffs cfg = Some (int (DIFF_COUNT st)) \<longrightarrow>
             \<not> limit_exceeded cfg st \<and> limit_exceeded cfg st'))"
proof -
  let ?run = "diff (Suc n) env cfg lvl parents_ids local_tree st"
  have A: "limit_exceeded cfg st \<longleftrightarrow> (\<exists>m. max_diffs cfg = Some m \<and> m < int (DIFF_COUNT st))"
    by (auto simp: limit_exceeded_def split: option.splits)
  have B: "\<exists>st1. ?run = Inr (local_tree, st1) \<and> DIFF_COUNT st1 = DIFF_COUNT st \<and> tree st1 = tree st"
    if ex: "limit_exceeded cfg st"
    using ex by (auto simp: limit_exceeded_def diff_body_def count_diff_def split: option.splits)
  have C1: "?run = Inl e" if "count_diff cfg st = Inl e" for e
    using that by (simp add: diff_body_def)
  have C2: "sig = Continue \<and> DIFF_COUNT st1 = DIFF_COUNT st + 1 \<and> tree st1 = tree st
            \<and> ?run = compare_level (diff n env cfg) env cfg lvl parents_ids local_tree st1"
    if nex: "\<not> limit_exceeded cfg st" and cd: "count_diff cfg st = Inr (sig, st1)" for sig st1
  proof -
    have sg: "sig = Continue" using cd nex count_diff_Stop[of cfg st st1] by (cases sig) auto
    show ?thesis using cd sg count_diff_Continue[of cfg st st1] by (simp add: diff_body_def)
  qed
  have C3: "\<exists>st1. count_diff cfg st = Inr (Continue, st1)"
    if nex: "\<not> limit_exceeded cfg st" and ok: "tune_ok cfg st"
  proof -
    obtain sig st1 where cd: "count_diff cfg st = Inr (sig, st1)"
      using count_diff_ok[OF ok] by (elim exE conjE)
    show ?thesis using C2[OF nex cd] cd by auto
  qed
  have D: "DIFF_COUNT st + 1 \<le> DIFF_COUNT st'
           \<and> ((t1 lvl = t2 lvl \<or> takes_over cfg lvl \<or> skip_this env cfg lvl)
                \<longrightarrow> DIFF_COUNT st' = DIFF_COUNT st + 1 \<and> lt' = local_tree)"
    if ret: "?run = Inr (lt', st')" and nex: "\<not> limit_exceeded cfg st" for lt' st'
  proof -
    obtain sig st1 where cd: "count_diff cfg st = Inr (sig, st1)"
      using ret by (auto simp: diff_body_def split: sum.splits)
    note c2 = C2[OF nex cd]
    have d1: "DIFF_COUNT st1 = DIFF_COUNT st + 1" using c2 by simp
    have run: "compare_level (diff n env cfg) env cfg lvl parents_ids local_tree st1 = Inr (lt', st')"
      using c2 ret by simp
    have "counts_on snd st1 (compare_level (diff n env cfg) env cfg lvl parents_ids local_tree st1)"
      by (rule compare_level_counts[OF diff_counting])
    then have ge: "DIFF_COUNT st + 1 \<le> DIFF_COUNT st'" using run d1 by simp
    obtain pd st2 where uc: "use_custom_operator env cfg (custom_operators cfg) lvl st1 = (pd, st2)"
      by (cases "use_custom_operator env cfg (custom_operators cfg) lvl st1")
    have d2: "DIFF_COUNT st2 = DIFF_COUNT st1"
      using use_custom_operator_DIFF_COUNT[of env cfg "custom_operators cfg" lvl st1] uc by simp
    have pd: "pd = takes_over cfg lvl"
      using use_custom_operator_fst[of env cfg "custom_operators cfg" lvl st1] uc
      by (simp add: takes_over_def)
    have quick: "DIFF_COUNT st' = DIFF_COUNT st + 1 \<and> lt' = local_tree"
      if q: "t1 lvl = t2 lvl \<or> takes_over cfg lvl \<or> skip_this env cfg lvl"
      using run uc q pd d1 d2 by (auto simp: compare_level_def split: if_splits)
    show ?thesis using ge quick by simp
  qed
  have E: "\<not> limit_exceeded cfg st \<and> limit_exceeded cfg st'"
    if ret: "?run = Inr (lt', st')" and m: "max_diffs cfg = Some (int (DIFF_COUNT st))" for lt' st'
  proof -
    have nex: "\<not> limit_exceeded cfg st" using m by (simp add: limit_exceeded_def)
    have "DIFF_COUNT st + 1 \<le> DIFF_COUNT st'" using D[OF ret nex] by simp
    then show ?thesis using nex m by (simp add: limit_exceeded_def)
  qed
  show ?thesis
    apply (intro conjI impI allI)
    subgoal by (rule A)
    subgoal by (rule B)
    subgoal by (rule C1)
    subgoal using C2 by blast
    subgoal using C2 by blast
    subgoal using C2 by blast
    subgoal using C2 by blast
    subgoal using C3 by blast
    subgoal using D by blast
    subgoal using D by blast
    subgoal using D by blast
    subgoal using E by blast
    subgoal using E by blast
    done
qed

text \<open>
  The witness, with \<^verbatim>\<open>max_diffs = 0\<close> and a fresh counter: comparing \<open>1\<close> with \<open>2\<close> counts once
  and files one record, and comparing an object with itself counts once and files none,
  both leaving the counter at \<open>1\<close>, that is \<^verbatim>\<open>max_diffs + 1\<close>; from there the budget is
  exceeded, and comparing \<open>1\<close> with \<open>2\<close> returns at once with the counter and the tree as
  they were.
\<close>

theorem diff_counts_every_visited_level_witness:
  "\<not> limit_exceeded (default_config\<lparr>max_diffs := Some 0\<rparr>) fresh_state
   \<and> max_diffs (default_config\<lparr>max_diffs := Some 0\<rparr>) = Some (int (DIFF_COUNT fresh_state))
   \<and> tune_ok (default_config\<lparr>max_diffs := Some 0\<rparr>) fresh_state
   \<and> count_diff (default_config\<lparr>max_diffs := Some 0\<rparr>) fresh_state
       = Inr (Continue, fresh_state\<lparr>DIFF_COUNT := 1\<rparr>)
   \<and> diff (Suc 0) (small_env (heap_of [])) (default_config\<lparr>max_diffs := Some 0\<rparr>)
        (root_level (VRef 1) (VRef 2)) {VRef 1} None fresh_state
       = Inr (None, fresh_state\<lparr>DIFF_COUNT := 1,
                                 tree := [(values_changed, root_level (VRef 1) (VRef 2))]\<rparr>)
   \<and> limit_exceeded (default_config\<lparr>max_diffs := Some 0\<rparr>)
        (fresh_state\<lparr>DIFF_COUNT := 1, tree := [(values_changed, root_level (VRef 1) (VRef 2))]\<rparr>)
   \<and> t1 (root_level (VRef 1) (VRef 1)) = t2 (root_level (VRef 1) (VRef 1))
   \<and> diff (Suc 0) (small_env (heap_of [])) (default_config\<lparr>max_diffs := Some 0\<rparr>)
        (root_level (VRef 1) (VRef 1)) {VRef 1} None fresh_state
       = Inr (None, fresh_state\<lparr>DIFF_COUNT := 1\<rparr>)
   \<and> limit_exceeded (default_config\<lparr>max_diffs := Some 0\<rparr>) (fresh_state\<lparr>DIFF_COUNT := 1\<rparr>)
   \<and> (\<exists>st1. diff (Suc 0) (small_env (heap_of [])) (default_config\<lparr>max_diffs := Some 0\<rparr>)
               (root_level (VRef 1) (VRef 2)) {VRef 1} None (fresh_state\<lparr>DIFF_COUNT := 1\<rparr>)
              = Inr (None, st1)
            \<and> DIFF_COUNT st1 = DIFF_COUNT (fresh_state\<lparr>DIFF_COUNT := 1\<rparr>)
            \<and> tree st1 = tree (fresh_state\<lparr>DIFF_COUNT := 1\<rparr>))"
proof -
  let ?cfg = "default_config\<lparr>max_diffs := Some 0\<rparr>"
  let ?env = "small_env (heap_of [])"
  let ?st' = "fresh_state\<lparr>DIFF_COUNT := 1, tree := [(values_changed, root_level (VRef 1) (VRef 2))]\<rparr>"
  have e: "\<not> limit_exceeded ?cfg fresh_state"
    by code_simp
  have m: "max_diffs ?cfg = Some (int (DIFF_COUNT fresh_state))"
    by code_simp
  have ok: "tune_ok ?cfg fresh_state"
    by (simp add: tune_ok_def fresh_state_def root_state_def)
  have cd: "count_diff ?cfg fresh_state = Inr (Continue, fresh_state\<lparr>DIFF_COUNT := 1\<rparr>)"
    by code_simp
  have r: "diff (Suc 0) ?env ?cfg (root_level (VRef 1) (VRef 2)) {VRef 1} None fresh_state
           = Inr (None, ?st')"
    by code_simp
  have i: "t1 (root_level (VRef 1) (VRef 1)) = t2 (root_level (VRef 1) (VRef 1))"
    by (simp add: root_level_def)
  have q: "diff (Suc 0) ?env ?cfg (root_level (VRef 1) (VRef 1)) {VRef 1} None fresh_state
           = Inr (None, fresh_state\<lparr>DIFF_COUNT := 1\<rparr>)"
    by code_simp
  have x: "limit_exceeded ?cfg (fresh_state\<lparr>DIFF_COUNT := 1\<rparr>)"
    by code_simp
  have after: "limit_exceeded ?cfg ?st'"
    using diff_counts_every_visited_level[where cfg="?cfg" and st=fresh_state and n=0 and env="?env"
            and lvl="root_level (VRef 1) (VRef 2)" and parents_ids="{VRef 1}" and local_tree=None]
          r m
    by simp
  have stopped: "\<exists>st1. diff (Suc 0) ?env ?cfg (root_level (VRef 1) (VRef 2)) {VRef 1} None
                          (fresh_state\<lparr>DIFF_COUNT := 1\<rparr>) = Inr (None, st1)
                       \<and> DIFF_COUNT st1 = DIFF_COUNT (fresh_state\<lparr>DIFF_COUNT := 1\<rparr>)
                       \<and> tree st1 = tree (fresh_state\<lparr>DIFF_COUNT := 1\<rparr>)"
    using diff_counts_every_visited_level[where cfg="?cfg" and st="fresh_state\<lparr>DIFF_COUNT := 1\<rparr>"
            and n=0 and env="?env" and lvl="root_level (VRef 1) (VRef 2)"
            and parents_ids="{VRef 1}" and local_tree=None]
          x
    by simp
  show ?thesis
    using e m ok cd r after i q x stopped by simp
qed

section \<open>Construction errors\<close>




section \<open>Reflexivity and cycles\<close>

lemma root_state_ok: "tune_ok cfg (root_state args cfg) \<and> tree (root_state args cfg) = []"
  by (simp add: tune_ok_def root_state_def)

lemma key_eq_sym: "key_eq h x y = key_eq h y x"
  by (auto simp: key_eq_def split: option.splits)

lemma key_eq_refl: "key_eq h x x"
  by (simp add: key_eq_def)

lemma key_eq_private: "key_eq h x y \<Longrightarrow> private_key h x = private_key h y"
  by (cases x; cases y) (auto simp: key_eq_def private_key_def split: option.splits obj.splits)

text \<open>
  A dictionary whose one value is the dictionary itself, against another such: the value
  is among the ancestors, so the one common key is passed over.
\<close>

lemma diff_dict_self_reference:
  assumes l1: "t1 lvl = Present (VRef a)" and l2: "t2 lvl = Present (VRef b)"
    and ha: "heap env a = ODict [(k, VRef a)]" and hb: "heap env b = ODict [(k', VRef b)]"
    and ke: "key_eq (heap env) k k'" and par: "VRef a \<in> parents_ids" and ok: "tune_ok cfg st"
  shows "\<exists>st'. diff_dict rec env cfg lvl parents_ids local_tree st = Inr (local_tree, st')
               \<and> tree st' = tree st"
proof (cases "ignore_private_variables cfg \<and> private_key (heap env) k")
  case True
  then have "private_key (heap env) k'" using key_eq_private[OF ke] by simp
  then show ?thesis
    using True l1 l2 ha hb
    by (simp add: diff_dict_def dict_keys_def finish_def bind_res_def)
next
  case False
  then have f2: "\<not> (ignore_private_variables cfg \<and> private_key (heap env) k')"
    using key_eq_private[OF ke] by simp
  have k1: "dict_keys env cfg [(k, VRef a)] = [k]" using False by (auto simp: dict_keys_def)
  have k2: "dict_keys env cfg [(k', VRef b)] = [k']" using f2 by (auto simp: dict_keys_def)
  have ke': "key_eq (heap env) k' k" using ke key_eq_sym by simp
  obtain sig st1 where c: "count_diff cfg st = Inr (sig, st1)" and t: "tree st1 = tree st"
    using count_diff_ok[OF ok] by blast
  have body: "dict_common_body rec env cfg lvl [(k, VRef a)] [(k', VRef b)] parents_ids k' (local_tree, st)
                = Inr (sig, (local_tree, st1))"
    using c ke par
    by (cases sig) (auto simp: dict_common_body_def budgeted_def key_eq_refl)
  show ?thesis
    using l1 l2 ha hb k1 k2 ke ke' body t
    by (cases sig)
       (simp_all add: diff_dict_def Let_def key_in_def key_eq_refl finish_def bind_res_def)
qed

lemma no_records_no_value_changes: "mutual_add_removes_to_become_value_changes h [] = []"
  by (simp add: mutual_add_removes_to_become_value_changes_def path_table_def tree_get_def
        List.map_filter_simps)

lemma view_of_no_records:
  assumes "tree st = []" and "\<forall>w. view cfg \<noteq> OtherView w"
  shows "\<exists>st'. get_view_results h cfg st = Inr st' \<and> tree st' = []"
  using assms
  by (cases "view cfg") (auto simp: get_view_results_def Let_def no_records_no_value_changes)

text \<open>
  C1. In a root run whose parameters pass the checks and hold no custom operator:
  comparing any value with itself returns, and its tree is empty, whatever the heap holds
  (cycles included), the identity test ending the comparison at the root; and comparing
  two distinct dictionaries that each hold themselves under one equal key returns too, with
  an empty tree: the value of the key is already among the ancestors. This holds of the
  comparison (\<open>root_diff\<close>), and of the constructor as a whole when the view is one the
  engine knows (with any other view the constructor raises after the comparison).
\<close>

theorem reflexive_and_cycle_safe:
  assumes cp: "clean_parameters args = Inr cfg"
      and no_ops: "custom_operators cfg = []"
      and root: "shared_parameters args = None"
  shows "(1 \<le> recursion_limit env \<longrightarrow>
            (\<exists>st. root_diff env args cfg v v = Inr st \<and> tree st = [])
            \<and> ((\<forall>w. view cfg \<noteq> OtherView w) \<longrightarrow> (\<exists>st. DeepDiff env args v v = Inr st \<and> tree st = [])))
       \<and> (2 \<le> recursion_limit env
            \<and> heap env a = ODict [(k, VRef a)] \<and> heap env b = ODict [(k', VRef b)]
            \<and> key_eq (heap env) k k'
          \<longrightarrow> (\<exists>st. root_diff env args cfg (VRef a) (VRef b) = Inr st \<and> tree st = [])
              \<and> ((\<forall>w. view cfg \<noteq> OtherView w)
                   \<longrightarrow> (\<exists>st. DeepDiff env args (VRef a) (VRef b) = Inr st \<and> tree st = [])))"
proof -
  let ?st0 = "root_state args cfg"
  obtain sig st1 where c: "count_diff cfg ?st0 = Inr (sig, st1)"
      and ok1: "tune_ok cfg st1" and t1: "tree st1 = []"
    using count_diff_ok[of cfg ?st0] root_state_ok[of cfg args] by auto
  have whole: "\<exists>st'. DeepDiff env args x y = Inr st' \<and> tree st' = []"
    if r: "\<exists>st. root_diff env args cfg x y = Inr st \<and> tree st = []"
    and vw: "\<forall>w. view cfg \<noteq> OtherView w" for x y
  proof -
    obtain st where st: "root_diff env args cfg x y = Inr st" "tree st = []" using r by blast
    obtain st' where "get_view_results (heap env) cfg st = Inr st'" "tree st' = []"
      using view_of_no_records[OF st(2) vw] by blast
    then show ?thesis using cp st by (simp add: DeepDiff_def bind_res_def)
  qed
  have A: "\<exists>st. root_diff env args cfg v v = Inr st \<and> tree st = []" if lim: "1 \<le> recursion_limit env"
  proof -
    obtain n where n: "recursion_limit env = Suc n" using lim by (cases "recursion_limit env") auto
    show ?thesis
      using no_ops root c t1 n
      by (cases sig) (auto simp: root_diff_def bind_res_def diff_body_def compare_level_def root_level_def)
  qed
  have B: "\<exists>st. root_diff env args cfg (VRef a) (VRef b) = Inr st \<and> tree st = []"
    if lim: "2 \<le> recursion_limit env"
    and ha: "heap env a = ODict [(k, VRef a)]" and hb: "heap env b = ODict [(k', VRef b)]"
    and ke: "key_eq (heap env) k k'"
  proof -
    obtain n where n: "recursion_limit env = Suc (Suc n)"
      using lim by (cases "recursion_limit env"; cases "recursion_limit env - 1") auto
    let ?lvl = "root_level (VRef a) (VRef b)"
    obtain st2 where d: "diff_dict (diff (Suc n) env cfg) env cfg ?lvl {VRef a} None st1 = Inr (None, st2)"
        and t2: "tree st2 = tree st1"
      using diff_dict_self_reference[of ?lvl a b env k k' "{VRef a}" cfg st1 "diff (Suc n) env cfg" None]
            ha hb ke ok1 by (auto simp: root_level_def)
    have ty: "get_type (heap env) (t1 ?lvl) = TDict" "get_type (heap env) (t2 ?lvl) = TDict"
      using ha hb by (simp_all add: root_level_def)
    show ?thesis
      using no_ops root c t1 n d t2 ty
      by (cases sig) (auto simp: root_diff_def bind_res_def diff_body_def compare_level_def)
  qed
  show ?thesis using A B whole by blast
qed

text \<open>The witness: the two dictionaries of the spec's scenario, under the default arguments.\<close>

theorem reflexive_and_cycle_safe_witness:
  "clean_parameters default_args = Inr default_config
   \<and> custom_operators default_config = []
   \<and> shared_parameters default_args = None
   \<and> 2 \<le> recursion_limit (small_env self_heap)
   \<and> heap (small_env self_heap) 100 = ODict [(VRef 50, VRef 100)]
   \<and> heap (small_env self_heap) 101 = ODict [(VRef 50, VRef 101)]
   \<and> view default_config = TEXT_VIEW
   \<and> (\<exists>st. root_diff (small_env self_heap) default_args default_config (VRef 100) (VRef 100) = Inr st
           \<and> tree st = [])
   \<and> (\<exists>st. root_diff (small_env self_heap) default_args default_config (VRef 100) (VRef 101) = Inr st
           \<and> tree st = [])
   \<and> (\<exists>st. DeepDiff (small_env self_heap) default_args (VRef 100) (VRef 100) = Inr st \<and> tree st = [])
   \<and> (\<exists>st. DeepDiff (small_env self_heap) default_args (VRef 100) (VRef 101) = Inr st \<and> tree st = [])"
proof -
  have c: "clean_parameters default_args = Inr default_config"
    by (simp add: clean_parameters_def default_args_def default_config_def
          CUTOFF_DISTANCE_FOR_PAIRS_DEFAULT_def)
  have o: "custom_operators default_config = []" by (simp add: default_config_def)
  have r: "shared_parameters default_args = None" by (simp add: default_args_def)
  have l: "2 \<le> recursion_limit (small_env self_heap)" by (simp add: small_env_def)
  have ha: "heap (small_env self_heap) 100 = ODict [(VRef 50, VRef 100)]"
    by (simp add: small_env_def simple_env_def self_heap_def heap_of_def)
  have hb: "heap (small_env self_heap) 101 = ODict [(VRef 50, VRef 101)]"
    by (simp add: small_env_def simple_env_def self_heap_def heap_of_def)
  have ke: "key_eq (heap (small_env self_heap)) (VRef 50) (VRef 50)" by (simp add: key_eq_def)
  have l1: "1 \<le> recursion_limit (small_env self_heap)" by (simp add: small_env_def)
  have vw: "view default_config = TEXT_VIEW" by (simp add: default_config_def)
  have vw': "\<forall>w. view default_config \<noteq> OtherView w" using vw by simp
  note T = reflexive_and_cycle_safe[OF c o r, of "small_env self_heap" "VRef 100" 100 "VRef 50" 101 "VRef 50"]
  have a1: "\<exists>st. root_diff (small_env self_heap) default_args default_config (VRef 100) (VRef 100) = Inr st
                 \<and> tree st = []"
    using T l1 by blast
  have a2: "\<exists>st. DeepDiff (small_env self_heap) default_args (VRef 100) (VRef 100) = Inr st \<and> tree st = []"
    using T l1 vw' by blast
  have b1: "\<exists>st. root_diff (small_env self_heap) default_args default_config (VRef 100) (VRef 101) = Inr st
                 \<and> tree st = []"
    using T l ha hb ke by blast
  have b2: "\<exists>st. DeepDiff (small_env self_heap) default_args (VRef 100) (VRef 101) = Inr st \<and> tree st = []"
    using T l ha hb ke vw' by blast
  show ?thesis using c o r l ha hb vw a1 a2 b1 b2 by (intro conjI)
qed

section \<open>Ordered sequences: the two passes\<close>

text \<open>
  C3, as the code has it. When a comparison qualifies for the alignment by opcodes and the
  alignment pass returns the records \<open>lcs\<close>: with at most one record from the alignment the
  positional pass is not run and \<open>lcs\<close> is the result, whatever that pass would do;
  with more than one record the positional pass is run from where the alignment stopped,
  an error of it is the error of the comparison, and when it returns, its records are kept
  when they are no more than those of the alignment, a tie included, and the alignment's
  records, with the opcodes filed under the path, only when they are strictly fewer.
\<close>

theorem in_order_keeps_the_pass_with_fewer_records:
  assumes l1: "t1 lvl = Present (VRef p)" and l2: "t2 lvl = Present (VRef q)"
    and ha: "heap env p = OList a" and hb: "heap env q = OList b"
    and q1: "\<not> zip_ordered_iterables cfg" and q2: "all_values_basic_hashable env a"
    and q3: "all_values_basic_hashable env b" and q4: "iterable_compare_func cfg = None"
    and pass1: "diff_ordered_iterable_by_difflib rec env cfg lvl a b parents_ids (Some []) st
                  = Inr (opcodes_with_values, (Some lcs, st1))"
  shows "(length lcs \<le> 1 \<longrightarrow>
            diff_iterable_in_order rec env cfg lvl parents_ids local_tree st
            = Inr (local_tree, st1\<lparr>tree := tree st1 @ lcs\<rparr>))
       \<and> (1 < length lcs \<longrightarrow>
            (\<forall>e. diff_by_forming_pairs_and_comparing_one_by_one rec env cfg lvl a b None parents_ids
                    (Some []) st1 = Inl e
                 \<longrightarrow> diff_iterable_in_order rec env cfg lvl parents_ids local_tree st = Inl e)
            \<and> (\<forall>positional st2.
                  diff_by_forming_pairs_and_comparing_one_by_one rec env cfg lvl a b None parents_ids
                    (Some []) st1 = Inr (positional, st2)
                  \<longrightarrow> diff_iterable_in_order rec env cfg lvl parents_ids local_tree st
                      = Inr (local_tree,
                             if length (the_tree positional) \<le> length lcs
                             then st2\<lparr>tree := tree st2 @ the_tree positional\<rparr>
                             else st2\<lparr>tree := tree st2 @ lcs,
                                     iterable_opcodes :=
                                       AList.update (level_path (heap env) lvl) opcodes_with_values
                                         (iterable_opcodes st2)\<rparr>)))"
  using assms
  by (auto simp: diff_iterable_in_order_def bind_res_def tree_len_def merge_into_tree_def the_tree_def
           split: option.splits)

text \<open>
  The witness: \<^verbatim>\<open>[1, 2]\<close> against \<^verbatim>\<open>[2, 1]\<close>, where the two passes tie, and \<^verbatim>\<open>[1, 2, 3]\<close>
  against \<^verbatim>\<open>[1, 2, 3, 4]\<close>, where the alignment files one record.
\<close>

theorem in_order_keeps_the_pass_with_fewer_records_witness:
  "diff_ordered_iterable_by_difflib (diff 19 (small_env tie_heap) default_config) (small_env tie_heap)
        default_config (root_level (VRef 100) (VRef 101)) [VRef 1, VRef 2] [VRef 2, VRef 1] {VRef 100}
        (Some []) (fresh_state\<lparr>DIFF_COUNT := 1\<rparr>)
     = Inr (tie_opcodes, (Some tie_lcs, fresh_state\<lparr>DIFF_COUNT := 1\<rparr>))
   \<and> 1 < length tie_lcs
   \<and> diff_by_forming_pairs_and_comparing_one_by_one (diff 19 (small_env tie_heap) default_config)
        (small_env tie_heap) default_config (root_level (VRef 100) (VRef 101))
        [VRef 1, VRef 2] [VRef 2, VRef 1] None {VRef 100} (Some []) (fresh_state\<lparr>DIFF_COUNT := 1\<rparr>)
     = Inr (Some tie_positional, fresh_state\<lparr>DIFF_COUNT := 5\<rparr>)
   \<and> diff_iterable_in_order (diff 19 (small_env tie_heap) default_config) (small_env tie_heap)
        default_config (root_level (VRef 100) (VRef 101)) {VRef 100} None (fresh_state\<lparr>DIFF_COUNT := 1\<rparr>)
     = Inr (None, fresh_state\<lparr>DIFF_COUNT := 5, tree := tie_positional\<rparr>)
   \<and> diff_ordered_iterable_by_difflib (diff 19 (small_env short_heap) default_config) (small_env short_heap)
        default_config (root_level (VRef 100) (VRef 101)) [VRef 1, VRef 2, VRef 3]
        [VRef 1, VRef 2, VRef 3, VRef 4] {VRef 100} (Some []) (fresh_state\<lparr>DIFF_COUNT := 1\<rparr>)
     = Inr (short_opcodes, (Some short_lcs, fresh_state\<lparr>DIFF_COUNT := 1\<rparr>))
   \<and> length short_lcs \<le> 1
   \<and> diff_iterable_in_order (diff 19 (small_env short_heap) default_config) (small_env short_heap)
        default_config (root_level (VRef 100) (VRef 101)) {VRef 100} None (fresh_state\<lparr>DIFF_COUNT := 1\<rparr>)
     = Inr (None, fresh_state\<lparr>DIFF_COUNT := 1, tree := short_lcs\<rparr>)"
proof -
  have l1: "t1 (root_level (VRef 100) (VRef 101)) = Present (VRef 100)" by (simp add: root_level_def)
  have l2: "t2 (root_level (VRef 100) (VRef 101)) = Present (VRef 101)" by (simp add: root_level_def)
  have ha: "heap (small_env tie_heap) 100 = OList [VRef 1, VRef 2]"
    by (simp add: small_env_def simple_env_def tie_heap_def heap_of_def)
  have hb: "heap (small_env tie_heap) 101 = OList [VRef 2, VRef 1]"
    by (simp add: small_env_def simple_env_def tie_heap_def heap_of_def)
  have sa: "heap (small_env short_heap) 100 = OList [VRef 1, VRef 2, VRef 3]"
    by (simp add: small_env_def simple_env_def short_heap_def heap_of_def)
  have sb: "heap (small_env short_heap) 101 = OList [VRef 1, VRef 2, VRef 3, VRef 4]"
    by (simp add: small_env_def simple_env_def short_heap_def heap_of_def)
  have q1: "\<not> zip_ordered_iterables default_config" by (simp add: default_config_def)
  have q2: "all_values_basic_hashable (small_env tie_heap) [VRef 1, VRef 2]" by code_simp
  have q3: "all_values_basic_hashable (small_env tie_heap) [VRef 2, VRef 1]" by code_simp
  have s2: "all_values_basic_hashable (small_env short_heap) [VRef 1, VRef 2, VRef 3]" by code_simp
  have s3: "all_values_basic_hashable (small_env short_heap) [VRef 1, VRef 2, VRef 3, VRef 4]" by code_simp
  have q4: "iterable_compare_func default_config = None" by (simp add: default_config_def)
  have p1: "diff_ordered_iterable_by_difflib (diff 19 (small_env tie_heap) default_config) (small_env tie_heap)
        default_config (root_level (VRef 100) (VRef 101)) [VRef 1, VRef 2] [VRef 2, VRef 1] {VRef 100}
        (Some []) (fresh_state\<lparr>DIFF_COUNT := 1\<rparr>)
     = Inr (tie_opcodes, (Some tie_lcs, fresh_state\<lparr>DIFF_COUNT := 1\<rparr>))"
    by code_simp
  have p2: "diff_by_forming_pairs_and_comparing_one_by_one (diff 19 (small_env tie_heap) default_config)
        (small_env tie_heap) default_config (root_level (VRef 100) (VRef 101))
        [VRef 1, VRef 2] [VRef 2, VRef 1] None {VRef 100} (Some []) (fresh_state\<lparr>DIFF_COUNT := 1\<rparr>)
     = Inr (Some tie_positional, fresh_state\<lparr>DIFF_COUNT := 5\<rparr>)"
    by code_simp
  have p3: "diff_ordered_iterable_by_difflib (diff 19 (small_env short_heap) default_config) (small_env short_heap)
        default_config (root_level (VRef 100) (VRef 101)) [VRef 1, VRef 2, VRef 3]
        [VRef 1, VRef 2, VRef 3, VRef 4] {VRef 100} (Some []) (fresh_state\<lparr>DIFF_COUNT := 1\<rparr>)
     = Inr (short_opcodes, (Some short_lcs, fresh_state\<lparr>DIFF_COUNT := 1\<rparr>))"
    by code_simp
  have len: "length tie_lcs = 2" "length tie_positional = 2" "length short_lcs = 1"
    by (simp_all add: tie_lcs_def tie_positional_def short_lcs_def)
  have t: "tree (fresh_state\<lparr>DIFF_COUNT := 5\<rparr>) = []" "tree (fresh_state\<lparr>DIFF_COUNT := 1\<rparr>) = []"
    by (simp_all add: fresh_state_def root_state_def)
  have r1: "diff_iterable_in_order (diff 19 (small_env tie_heap) default_config) (small_env tie_heap)
        default_config (root_level (VRef 100) (VRef 101)) {VRef 100} None (fresh_state\<lparr>DIFF_COUNT := 1\<rparr>)
     = Inr (None, fresh_state\<lparr>DIFF_COUNT := 5, tree := tie_positional\<rparr>)"
    using in_order_keeps_the_pass_with_fewer_records[OF l1 l2 ha hb q1 q2 q3 q4 p1, of None]
          p2 len t
    by (simp add: the_tree_def)
  have r2: "diff_iterable_in_order (diff 19 (small_env short_heap) default_config) (small_env short_heap)
        default_config (root_level (VRef 100) (VRef 101)) {VRef 100} None (fresh_state\<lparr>DIFF_COUNT := 1\<rparr>)
     = Inr (None, fresh_state\<lparr>DIFF_COUNT := 1, tree := short_lcs\<rparr>)"
    using in_order_keeps_the_pass_with_fewer_records[OF l1 l2 sa sb q1 s2 s3 q4 p3, of None]
          len t
    by simp
  show ?thesis using p1 p2 p3 r1 r2 len by simp
qed

text \<open>
  The counterexample to the claim as stated. For \<^verbatim>\<open>[1, 2]\<close> against \<^verbatim>\<open>[2, 1]\<close> the alignment
  reports an added and a removed item, the positional pass two changed values; the two
  are as many, and the run keeps the positional records and files no opcodes. For
  \<^verbatim>\<open>[1, 2, 3]\<close> against \<^verbatim>\<open>[1, 2, 3, 4]\<close> the alignment reports one record and the positional
  pass is not run: the counter stands at 1, the root level.
\<close>

theorem lcs_tie_counterexample:
  "map_sum id (\<lambda>(ops, (lt, st)). (record_view (the_tree lt), DIFF_COUNT st))
     (diff_ordered_iterable_by_difflib (diff 19 (small_env tie_heap) default_config) (small_env tie_heap)
        default_config (root_level (VRef 100) (VRef 101)) [VRef 1, VRef 2] [VRef 2, VRef 1] {VRef 100}
        (Some []) (fresh_state\<lparr>DIFF_COUNT := 1\<rparr>))
     = Inr ([(iterable_item_added, notpresent, Present (VRef 2), [SubscriptableIterableRelationship 0 None]),
             (iterable_item_removed, Present (VRef 2), notpresent, [SubscriptableIterableRelationship 1 None])], 1)
   \<and> map_sum id (\<lambda>(lt, st). record_view (the_tree lt))
     (diff_by_forming_pairs_and_comparing_one_by_one (diff 19 (small_env tie_heap) default_config)
        (small_env tie_heap) default_config (root_level (VRef 100) (VRef 101))
        [VRef 1, VRef 2] [VRef 2, VRef 1] None {VRef 100} (Some []) (fresh_state\<lparr>DIFF_COUNT := 1\<rparr>))
     = Inr [(values_changed, Present (VRef 1), Present (VRef 2), [SubscriptableIterableRelationship 0 None]),
            (values_changed, Present (VRef 2), Present (VRef 1), [SubscriptableIterableRelationship 1 None])]
   \<and> map_sum id (\<lambda>st. (record_view (tree st), iterable_opcodes st))
        (DeepDiff (small_env tie_heap) default_args (VRef 100) (VRef 101))
     = Inr ([(values_changed, Present (VRef 1), Present (VRef 2), [SubscriptableIterableRelationship 0 None]),
             (values_changed, Present (VRef 2), Present (VRef 1), [SubscriptableIterableRelationship 1 None])], [])
   \<and> map_sum id (\<lambda>st. (record_view (tree st), DIFF_COUNT st))
        (DeepDiff (small_env short_heap) default_args (VRef 100) (VRef 101))
     = Inr ([(iterable_item_added, notpresent, Present (VRef 4), [SubscriptableIterableRelationship 3 None])], 1)"
  by code_simp

section \<open>The budget and the alignment by opcodes\<close>

text \<open>
  C4, at \<^verbatim>\<open>t1 = [1, 2, 3, 4]\<close>, \<^verbatim>\<open>t2 = [9, 2, 3]\<close>, \<^verbatim>\<open>max_diffs = 1\<close>. The opcodes are
  \<^verbatim>\<open>replace [0:1]\<close>, \<^verbatim>\<open>equal [1:3]\<close>, \<^verbatim>\<open>delete [3:4]\<close>. The budget is crossed inside the
  \<^verbatim>\<open>replace\<close> segment, before any record: the flag is set and the counter stands at 2.
  The \<^verbatim>\<open>delete\<close> segment, run in that state, still files \<^verbatim>\<open>iterable_item_removed\<close> for the
  item at index 3, and that record is the result of the run; the one warning is logged and
  no error is raised. Without the budget the run reports the changed value at index 0 too.
\<close>

theorem records_after_the_budget_is_crossed:
  "map_sum id (\<lambda>st. (record_view (tree st), DIFF_COUNT st, MAX_DIFF_LIMIT_REACHED st, length (warnings st)))
     (DeepDiff (small_env budget_heap) (default_args\<lparr>given := budget_config\<rparr>) (VRef 100) (VRef 101))
     = Inr ([(iterable_item_removed, Present (VRef 4), notpresent, [SubscriptableIterableRelationship 3 None])],
            2, True, 1)
   \<and> SequenceMatcher_get_opcodes budget_heap [VRef 1, VRef 2, VRef 3, VRef 4] [VRef 9, VRef 2, VRef 3]
     = [Opcode TagReplace 0 1 0 1, Opcode TagEqual 1 3 1 3, Opcode TagDelete 3 4 3 3]
   \<and> map_sum id (\<lambda>(ops, (lt, st)). (record_view (the_tree lt), DIFF_COUNT st, MAX_DIFF_LIMIT_REACHED st))
     (opcode_body (diff 19 (small_env budget_heap) budget_config) (small_env budget_heap)
        budget_config (root_level (VRef 100) (VRef 101))
        [VRef 1, VRef 2, VRef 3, VRef 4] [VRef 9, VRef 2, VRef 3] {VRef 100}
        (Opcode TagReplace 0 1 0 1) ([], (Some [], fresh_state\<lparr>DIFF_COUNT := 1\<rparr>)))
     = Inr ([], 2, True)
   \<and> limit_exceeded budget_config (fresh_state\<lparr>DIFF_COUNT := 2, MAX_DIFF_LIMIT_REACHED := True\<rparr>)
   \<and> map_sum id (\<lambda>(ops, (lt, st)). (record_view (the_tree lt), DIFF_COUNT st))
     (opcode_body (diff 19 (small_env budget_heap) budget_config) (small_env budget_heap)
        budget_config (root_level (VRef 100) (VRef 101))
        [VRef 1, VRef 2, VRef 3, VRef 4] [VRef 9, VRef 2, VRef 3] {VRef 100}
        (Opcode TagDelete 3 4 3 3)
        ([], (Some [], fresh_state\<lparr>DIFF_COUNT := 2, MAX_DIFF_LIMIT_REACHED := True\<rparr>)))
     = Inr ([(iterable_item_removed, Present (VRef 4), notpresent, [SubscriptableIterableRelationship 3 None])], 2)
   \<and> map_sum id (\<lambda>st. record_view (tree st))
     (DeepDiff (small_env budget_heap) default_args (VRef 100) (VRef 101))
     = Inr [(values_changed, Present (VRef 1), Present (VRef 9), [SubscriptableIterableRelationship 0 None]),
            (iterable_item_removed, Present (VRef 4), notpresent, [SubscriptableIterableRelationship 3 None])]"
  by code_simp

section \<open>Moved items\<close>

text \<open>
  C8, as amended. In the pairwise comparison, a pair of present items at different indices that are
  equal, or any such pair when a compare function is configured, gets exactly one record,
  \<^verbatim>\<open>iterable_item_moved\<close>, whose level carries the old and the new index, and nothing else
  (the budget allowing the step and the filters not excluding the level). For
  \<^verbatim>\<open>[1, 2, 3]\<close> against \<^verbatim>\<open>[3, 1, 2]\<close>, order significant, with a compare function that accepts
  two items when they are equal, the run reports three moved items, from 0 to 1, from 1 to
  2 and from 2 to 0, and no added or removed item.
\<close>

theorem moved_item_is_one_record:
  "(\<forall>rec env cfg lvl parents_ids i j x y e local_tree st st1.
      i \<noteq> j \<and> py_eq (heap env) (recursion_limit env) x y = Some e
      \<and> (e \<or> iterable_compare_func cfg \<noteq> None)
      \<and> count_diff cfg st = Inr (Continue, st1)
      \<and> \<not> skip_this env cfg
            (branch_deeper lvl (Present x) (Present y) (SubscriptableIterableRelationship i (Some j)))
      \<longrightarrow> pair_body rec env cfg lvl parents_ids ((i, j), ItemPair x y) (local_tree, st)
           = Inr (Continue,
                  (case local_tree of
                     None \<Rightarrow> (None, st1\<lparr>tree := tree st1 @
                                [(iterable_item_moved,
                                  branch_deeper lvl (Present x) (Present y)
                                    (SubscriptableIterableRelationship i (Some j)))]\<rparr>)
                   | Some t \<Rightarrow> (Some (t @
                                [(iterable_item_moved,
                                  branch_deeper lvl (Present x) (Present y)
                                    (SubscriptableIterableRelationship i (Some j)))]), st1))))
   \<and> map_sum id (\<lambda>st. record_view (tree st))
        (DeepDiff (small_env moved_heap) (default_args\<lparr>given := moved_config\<rparr>) (VRef 100) (VRef 101))
      = Inr [(iterable_item_moved, Present (VRef 1), Present (VRef 1), [SubscriptableIterableRelationship 0 (Some 1)]),
             (iterable_item_moved, Present (VRef 2), Present (VRef 2), [SubscriptableIterableRelationship 1 (Some 2)]),
             (iterable_item_moved, Present (VRef 3), Present (VRef 3), [SubscriptableIterableRelationship 2 (Some 0)])]"
proof -
  have scen: "map_sum id (\<lambda>st. record_view (tree st))
        (DeepDiff (small_env moved_heap) (default_args\<lparr>given := moved_config\<rparr>) (VRef 100) (VRef 101))
      = Inr [(iterable_item_moved, Present (VRef 1), Present (VRef 1), [SubscriptableIterableRelationship 0 (Some 1)]),
             (iterable_item_moved, Present (VRef 2), Present (VRef 2), [SubscriptableIterableRelationship 1 (Some 2)]),
             (iterable_item_moved, Present (VRef 3), Present (VRef 3), [SubscriptableIterableRelationship 2 (Some 0)])]"
    by code_simp
  have gen: "pair_body rec env cfg lvl parents_ids ((i, j), ItemPair x y) (local_tree, st)
           = Inr (Continue,
                  (case local_tree of
                     None \<Rightarrow> (None, st1\<lparr>tree := tree st1 @
                                [(iterable_item_moved,
                                  branch_deeper lvl (Present x) (Present y)
                                    (SubscriptableIterableRelationship i (Some j)))]\<rparr>)
                   | Some t \<Rightarrow> (Some (t @
                                [(iterable_item_moved,
                                  branch_deeper lvl (Present x) (Present y)
                                    (SubscriptableIterableRelationship i (Some j)))]), st1)))"
    if "i \<noteq> j" "py_eq (heap env) (recursion_limit env) x y = Some e"
       "e \<or> iterable_compare_func cfg \<noteq> None" "count_diff cfg st = Inr (Continue, st1)"
       "\<not> skip_this env cfg
            (branch_deeper lvl (Present x) (Present y) (SubscriptableIterableRelationship i (Some j)))"
    for rec env cfg lvl parents_ids i j x y e local_tree st st1
    using that by (auto simp: pair_body_def budgeted_def report_result_def split: option.splits)
  show ?thesis using scen gen by blast
qed

text \<open>The witness: the first pair of the scenario, \<^verbatim>\<open>1\<close> at index 0 matched at index 1.\<close>

theorem moved_item_is_one_record_witness:
  "(0::int) \<noteq> 1
   \<and> py_eq (heap (small_env moved_heap)) (recursion_limit (small_env moved_heap)) (VRef 1) (VRef 1) = Some True
   \<and> count_diff moved_config (fresh_state\<lparr>DIFF_COUNT := 1\<rparr>) = Inr (Continue, fresh_state\<lparr>DIFF_COUNT := 2\<rparr>)
   \<and> \<not> skip_this (small_env moved_heap) moved_config
         (branch_deeper (root_level (VRef 100) (VRef 101)) (Present (VRef 1)) (Present (VRef 1))
            (SubscriptableIterableRelationship 0 (Some 1)))
   \<and> pair_body (diff 19 (small_env moved_heap) moved_config) (small_env moved_heap) moved_config
        (root_level (VRef 100) (VRef 101)) {VRef 100} ((0, 1), ItemPair (VRef 1) (VRef 1))
        (None, fresh_state\<lparr>DIFF_COUNT := 1\<rparr>)
      = Inr (Continue,
             (None, fresh_state\<lparr>DIFF_COUNT := 2,
                      tree := [(iterable_item_moved,
                                branch_deeper (root_level (VRef 100) (VRef 101)) (Present (VRef 1)) (Present (VRef 1))
                                  (SubscriptableIterableRelationship 0 (Some 1)))]\<rparr>))"
proof -
  have h1: "(0::int) \<noteq> 1" by simp
  have h2: "py_eq (heap (small_env moved_heap)) (recursion_limit (small_env moved_heap)) (VRef 1) (VRef 1) = Some True"
    by code_simp
  have h3: "True \<or> iterable_compare_func moved_config \<noteq> None" by simp
  have h4: "count_diff moved_config (fresh_state\<lparr>DIFF_COUNT := 1\<rparr>) = Inr (Continue, fresh_state\<lparr>DIFF_COUNT := 2\<rparr>)"
    by code_simp
  have h5: "\<not> skip_this (small_env moved_heap) moved_config
         (branch_deeper (root_level (VRef 100) (VRef 101)) (Present (VRef 1)) (Present (VRef 1))
            (SubscriptableIterableRelationship 0 (Some 1)))"
    by code_simp
  have t: "tree (fresh_state\<lparr>DIFF_COUNT := 2\<rparr>) = []"
    by (simp add: fresh_state_def root_state_def)
  note g = moved_item_is_one_record[THEN conjunct1, rule_format,
             OF conjI[OF h1 conjI[OF h2 conjI[OF h3 conjI[OF h4 h5]]]],
             of "diff 19 (small_env moved_heap) moved_config" "{VRef 100}" None]
  show ?thesis using g h1 h2 h4 h5 t by simp
qed

text \<open>
  The claim as stated fails for a compare function that accepts every pair: each item of
  \<^verbatim>\<open>[1, 2, 3]\<close> is matched with the first item of \<^verbatim>\<open>[3, 1, 2]\<close> not matched yet, the one at
  its own index, so no pair has different indices; the run reports three changed values
  and no moved item.
\<close>

theorem permissive_compare_counterexample:
  "get_matching_pairs (small_env moved_heap) permissive_config (root_level (VRef 100) (VRef 101))
     [VRef 1, VRef 2, VRef 3] [VRef 3, VRef 1, VRef 2] None
     = Inr [((0, 0), ItemPair (VRef 1) (VRef 3)), ((1, 1), ItemPair (VRef 2) (VRef 1)),
            ((2, 2), ItemPair (VRef 3) (VRef 2))]
   \<and> map_sum id (\<lambda>st. record_view (tree st))
        (DeepDiff (small_env moved_heap) (default_args\<lparr>given := permissive_config\<rparr>) (VRef 100) (VRef 101))
      = Inr [(values_changed, Present (VRef 1), Present (VRef 3), [SubscriptableIterableRelationship 0 None]),
             (values_changed, Present (VRef 2), Present (VRef 1), [SubscriptableIterableRelationship 1 None]),
             (values_changed, Present (VRef 3), Present (VRef 2), [SubscriptableIterableRelationship 2 None])]"
  by code_simp

section \<open>Unordered collections: the greedy pairing\<close>

text \<open>The inner loop, the loop over the from-hashes of a tier and the loop over the tiers keep the invariant.\<close>

lemma to_hashes_loop_inv:
  assumes "to_hashes_loop f tos (used, P) = (used', P')"
      and "pairs_inv E used P"
      and "\<forall>t \<in> set tos. E f t"
  shows "pairs_inv E used' P' \<and> used \<subseteq> used' \<and> (\<forall>k. k \<noteq> f \<longrightarrow> map_of P' k = map_of P k)"
  using assms
proof (induction tos arbitrary: used P)
  case Nil
  then show ?case by simp
next
  case (Cons t tos)
  show ?case
  proof (cases "t \<in> used")
    case True
    then show ?thesis using Cons by simp
  next
    case False
    let ?u = "insert t (insert f used)"
    let ?P = "AList.update f t P"
    have step: "to_hashes_loop f tos (?u, ?P) = (used', P')" using Cons.prems(1) False by simp
    have inv: "pairs_inv E ?u ?P"
      using Cons.prems(2,3) False
      unfolding pairs_inv_def
      by (auto simp: update_conv' distinct_update split: if_splits)
    have "pairs_inv E used' P' \<and> ?u \<subseteq> used' \<and> (\<forall>k. k \<noteq> f \<longrightarrow> map_of P' k = map_of ?P k)"
      using Cons.IH[OF step inv] Cons.prems(3) by simp
    then show ?thesis by (auto simp: update_conv')
  qed
qed

lemma from_hashes_loop_inv:
  assumes "from_hashes_loop m d froms (used, P) = (used', P')"
      and "pairs_inv E used P"
      and "\<forall>f \<in> set froms. \<forall>t \<in> set (dd_get (dd_get m f) d). E f t"
  shows "pairs_inv E used' P' \<and> used \<subseteq> used' \<and> (\<forall>k \<in> used. map_of P' k = map_of P k)"
  using assms
proof (induction froms arbitrary: used P)
  case Nil
  then show ?case by simp
next
  case (Cons f froms)
  show ?case
  proof (cases "f \<in> used")
    case True
    then show ?thesis using Cons by simp
  next
    case False
    obtain u1 P1 where t: "to_hashes_loop f (dd_get (dd_get m f) d) (used, P) = (u1, P1)"
      by (cases "to_hashes_loop f (dd_get (dd_get m f) d) (used, P)")
    have step: "from_hashes_loop m d froms (u1, P1) = (used', P')"
      using Cons.prems(1) False t by simp
    have a: "pairs_inv E u1 P1 \<and> used \<subseteq> u1 \<and> (\<forall>k. k \<noteq> f \<longrightarrow> map_of P1 k = map_of P k)"
      using to_hashes_loop_inv[OF t Cons.prems(2)] Cons.prems(3) by simp
    have b: "pairs_inv E used' P' \<and> u1 \<subseteq> used' \<and> (\<forall>k \<in> u1. map_of P' k = map_of P1 k)"
      using Cons.IH[OF step] a Cons.prems(3) by simp
    have "map_of P' k = map_of P k" if "k \<in> used" for k
    proof -
      have "k \<noteq> f" "k \<in> u1" using that False a by auto
      then show ?thesis using a b by simp
    qed
    then show ?thesis using a b by auto
  qed
qed

lemma fold_from_hashes_loop_inv:
  assumes "fold (\<lambda>d. from_hashes_loop m d (dd_get d2f d)) ds (used, P) = (used', P')"
      and "pairs_inv (\<lambda>a r. \<exists>d. entry m a d r) used P"
  shows "pairs_inv (\<lambda>a r. \<exists>d. entry m a d r) used' P' \<and> used \<subseteq> used' \<and> (\<forall>k \<in> used. map_of P' k = map_of P k)"
  using assms
proof (induction ds arbitrary: used P)
  case Nil
  then show ?case by simp
next
  case (Cons d ds)
  obtain u1 P1 where t: "from_hashes_loop m d (dd_get d2f d) (used, P) = (u1, P1)"
    by (cases "from_hashes_loop m d (dd_get d2f d) (used, P)")
  have a: "pairs_inv (\<lambda>a r. \<exists>d. entry m a d r) u1 P1 \<and> used \<subseteq> u1 \<and> (\<forall>k \<in> used. map_of P1 k = map_of P k)"
    using from_hashes_loop_inv[OF t Cons.prems(2)] by (auto simp: entry_def)
  have step: "fold (\<lambda>d. from_hashes_loop m d (dd_get d2f d)) ds (u1, P1) = (used', P')"
    using Cons.prems(1) t by simp
  have b: "pairs_inv (\<lambda>a r. \<exists>d. entry m a d r) used' P' \<and> u1 \<subseteq> used' \<and> (\<forall>k \<in> u1. map_of P' k = map_of P1 k)"
    using Cons.IH[OF step] a by simp
  show ?case using a b by auto
qed

lemma greedy_pairs_inv:
  "\<exists>used. pairs_inv (\<lambda>a r. \<exists>d. entry m a d r) used (greedy_pairs m)"
proof -
  let ?d2f = "distances_to_from_hashes m"
  obtain u P where f: "fold (\<lambda>d. from_hashes_loop m d (dd_get ?d2f d)) (sort (map fst ?d2f)) ({}, []) = (u, P)"
    by (cases "fold (\<lambda>d. from_hashes_loop m d (dd_get ?d2f d)) (sort (map fst ?d2f)) ({}, [])")
  have i0: "pairs_inv (\<lambda>a r. \<exists>d. entry m a d r) {} []" by (simp add: pairs_inv_def)
  have "pairs_inv (\<lambda>a r. \<exists>d. entry m a d r) u P"
    using fold_from_hashes_loop_inv[OF f i0] by simp
  moreover have "greedy_pairs m = P" using f by (simp add: greedy_pairs_def Let_def)
  ultimately show ?thesis by blast
qed

text \<open>\<^verbatim>\<open>pairs.update(inverse_pairs)\<close>: the lookups of the symmetric dictionary.\<close>

lemma fold_update_swap:
  assumes "distinct (map snd xs)"
  shows "map_of (fold (\<lambda>(k, v) inv. AList.update v k inv) xs acc) y
           = (case map_of (map (\<lambda>(k, v). (v, k)) xs) y of Some k \<Rightarrow> Some k | None \<Rightarrow> map_of acc y)"
  using assms
proof (induction xs arbitrary: acc)
  case Nil
  then show ?case by simp
next
  case (Cons x xs)
  obtain k v where x: "x = (k, v)" by (cases x)
  have nv: "map_of (map (\<lambda>(k, v). (v, k)) xs) v = None"
    using Cons.prems x by (auto simp: map_of_eq_None_iff image_iff)
  show ?case
    using Cons.IH[of "AList.update v k acc"] Cons.prems x nv
    by (auto simp: update_conv' split: option.splits)
qed

lemma fold_update_plain:
  assumes "distinct (map fst xs)"
  shows "map_of (fold (\<lambda>(k, v) p. AList.update k v p) xs acc) y
           = (case map_of xs y of Some v \<Rightarrow> Some v | None \<Rightarrow> map_of acc y)"
  using assms
proof (induction xs arbitrary: acc)
  case Nil
  then show ?case by simp
next
  case (Cons x xs)
  obtain k v where x: "x = (k, v)" by (cases x)
  have nv: "map_of xs k = None"
    using Cons.prems x by (auto simp: map_of_eq_None_iff image_iff)
  show ?case
    using Cons.IH[of "AList.update k v acc"] Cons.prems x nv
    by (auto simp: update_conv' split: option.splits)
qed

lemma distinct_fold_update_swap:
  "distinct (map fst acc) \<Longrightarrow> distinct (map fst (fold (\<lambda>(k, v) inv. AList.update v k inv) xs acc))"
  by (induction xs arbitrary: acc) (auto simp: distinct_update)

lemma inj_distinct_snd:
  assumes "distinct (map fst xs)"
      and "\<forall>k k' r. map_of xs k = Some r \<and> map_of xs k' = Some r \<longrightarrow> k = k'"
  shows "distinct (map snd xs)"
  using assms
proof (induction xs)
  case Nil
  then show ?case by simp
next
  case (Cons x xs)
  obtain k v where x: "x = (k, v)" by (cases x)
  have d: "distinct (map fst xs)" and kn: "k \<notin> fst ` set xs" using Cons.prems(1) x by auto
  have inj': "\<forall>a b r. map_of xs a = Some r \<and> map_of xs b = Some r \<longrightarrow> a = b"
  proof (intro allI impI)
    fix a b r assume h: "map_of xs a = Some r \<and> map_of xs b = Some r"
    then have "a \<in> fst ` set xs" "b \<in> fst ` set xs"
      by (metis domI dom_map_of_conv_image_fst)+
    then have "a \<noteq> k" "b \<noteq> k" using kn by auto
    then have "map_of (x # xs) a = Some r \<and> map_of (x # xs) b = Some r" using h x by simp
    then show "a = b" using Cons.prems(2) by blast
  qed
  have vn: "v \<notin> snd ` set xs"
  proof
    assume "v \<in> snd ` set xs"
    then obtain k' where m: "(k', v) \<in> set xs" by auto
    then have "map_of xs k' = Some v" using d by simp
    moreover have "k' \<noteq> k" using m kn by (auto simp: image_iff)
    ultimately have "map_of (x # xs) k' = Some v \<and> map_of (x # xs) k = Some v" using x by simp
    then have "k' = k" using Cons.prems(2) by blast
    then show False using \<open>k' \<noteq> k\<close> by simp
  qed
  show ?case using Cons.IH[OF d inj'] vn x by simp
qed

lemma with_inverse_map_of:
  assumes d: "distinct (map fst G)"
      and inj: "\<forall>k k' r. map_of G k = Some r \<and> map_of G k' = Some r \<longrightarrow> k = k'"
  shows "map_of (with_inverse G) x = Some y
           \<longleftrightarrow> (map_of G y = Some x \<or> ((\<forall>k. map_of G k \<noteq> Some x) \<and> map_of G x = Some y))"
proof -
  let ?inv = "fold (\<lambda>(k, v) inv. AList.update v k inv) G []"
  have ds: "distinct (map snd G)" using inj_distinct_snd[OF d inj] .
  have di: "distinct (map fst ?inv)" using distinct_fold_update_swap[of "[]" G] by simp
  have sw: "map_of (map (\<lambda>(k, v). (v, k)) G) x = Some k \<longleftrightarrow> map_of G k = Some x" for k
  proof -
    have dsw: "distinct (map fst (map (\<lambda>(k, v). (v, k)) G))"
      using ds by (simp add: comp_def case_prod_unfold)
    have "map_of (map (\<lambda>(k, v). (v, k)) G) x = Some k \<longleftrightarrow> (x, k) \<in> set (map (\<lambda>(k, v). (v, k)) G)"
      using dsw by simp
    also have "\<dots> \<longleftrightarrow> (k, x) \<in> set G" by auto
    also have "\<dots> \<longleftrightarrow> map_of G k = Some x" using d by simp
    finally show ?thesis .
  qed
  have iv: "map_of ?inv x = Some k \<longleftrightarrow> map_of G k = Some x" for k
    using fold_update_swap[OF ds, of "[]" x] sw[of k]
    by (auto split: option.splits)
  have ivn: "map_of ?inv x = None \<longleftrightarrow> (\<forall>k. map_of G k \<noteq> Some x)"
    using iv by (metis not_Some_eq)
  have "map_of (with_inverse G) x = (case map_of ?inv x of Some v \<Rightarrow> Some v | None \<Rightarrow> map_of G x)"
    using fold_update_plain[OF di, of G x] by (simp add: with_inverse_def Let_def)
  then show ?thesis using iv ivn inj by (auto split: option.splits)
qed

section \<open>Unordered collections: candidates and the cutoff\<close>

text \<open>The candidate loops are the computed distances, filtered by the cutoff.\<close>

lemma survivors_snoc:
  "survivors c (tr @ [((a, r), d)]) = (if d \<ge> c then survivors c tr else mic_add (survivors c tr) a d r)"
  by (simp add: survivors_def survivor_step_def)

lemma candidate_body_refines:
  "candidate_body rec env cfg t1h t2h par pre a r (survivors (cutoff_distance_for_pairs cfg) tr0, st)
     = bind_res (trace_body rec env cfg t1h t2h par pre a r (tr0, st))
         (\<lambda>(tr, st1). Inr (survivors (cutoff_distance_for_pairs cfg) tr, st1))"
  by (auto simp: candidate_body_def trace_body_def bind_res_def survivors_snoc
           split: option.splits sum.splits prod.splits)

lemma candidates_inner_refines:
  "fold_res (candidate_body rec env cfg t1h t2h par pre a) rs (survivors (cutoff_distance_for_pairs cfg) tr0, st)
     = bind_res (fold_res (trace_body rec env cfg t1h t2h par pre a) rs (tr0, st))
         (\<lambda>(tr, st1). Inr (survivors (cutoff_distance_for_pairs cfg) tr, st1))"
proof (induction rs arbitrary: tr0 st)
  case Nil
  then show ?case by (simp add: bind_res_def)
next
  case (Cons r rs)
  show ?case
  proof (cases "trace_body rec env cfg t1h t2h par pre a r (tr0, st)")
    case (Inl e)
    then show ?thesis by (simp add: candidate_body_refines bind_res_def)
  next
    case (Inr p)
    obtain tr1 st1 where p: "p = (tr1, st1)" by (cases p)
    show ?thesis using Inr p Cons.IH[of tr1 st1] by (simp add: candidate_body_refines bind_res_def)
  qed
qed

lemma candidates_outer_refines:
  "fold_res (\<lambda>a. fold_res (candidate_body rec env cfg t1h t2h par pre a) rs) as
       (survivors (cutoff_distance_for_pairs cfg) tr0, st)
     = bind_res (fold_res (\<lambda>a. fold_res (trace_body rec env cfg t1h t2h par pre a) rs) as (tr0, st))
         (\<lambda>(tr, st1). Inr (survivors (cutoff_distance_for_pairs cfg) tr, st1))"
proof (induction as arbitrary: tr0 st)
  case Nil
  then show ?case by (simp add: bind_res_def)
next
  case (Cons a as)
  show ?case
  proof (cases "fold_res (trace_body rec env cfg t1h t2h par pre a) rs (tr0, st)")
    case (Inl e)
    then show ?thesis by (simp add: candidates_inner_refines bind_res_def)
  next
    case (Inr p)
    obtain tr1 st1 where p: "p = (tr1, st1)" by (cases p)
    show ?thesis using Inr p Cons.IH[of tr1 st1] by (simp add: candidates_inner_refines bind_res_def)
  qed
qed

lemma candidates_refines:
  "candidates rec env cfg hashes_added hashes_removed t1h t2h par pre st
     = bind_res (computed_distances rec env cfg hashes_added hashes_removed t1h t2h par pre st)
         (\<lambda>(tr, st1). Inr (survivors (cutoff_distance_for_pairs cfg) tr, st1))"
  using candidates_outer_refines[of rec env cfg t1h t2h par pre hashes_removed hashes_added "[]" st]
  by (simp add: candidates_def computed_distances_def survivors_def)

lemma dd_get_update: "dd_get (AList.update k v m) k' = (if k' = k then v else dd_get m k')"
  by (simp add: dd_get_def update_conv')

lemma set_oset_add: "set (oset_add xs x) = insert x (set xs)"
  by (auto simp: oset_add_def)

lemma distinct_oset_add: "distinct xs \<Longrightarrow> distinct (oset_add xs x)"
  by (auto simp: oset_add_def)

lemma mic_add_entry:
  "entry (mic_add m a d r) a' d' r' \<longleftrightarrow> entry m a' d' r' \<or> (a' = a \<and> d' = d \<and> r' = r)"
  by (auto simp: entry_def mic_add_def Let_def dd_get_update set_oset_add)

lemma mic_add_distinct:
  "(\<forall>a d. distinct (dd_get (dd_get m a) d)) \<Longrightarrow> distinct (dd_get (dd_get (mic_add m a0 d0 r0) a) d)"
  by (auto simp: mic_add_def Let_def dd_get_update distinct_oset_add)

lemma survivors_entry:
  "entry (survivors c tr) a d r \<longleftrightarrow> (((a, r), d) \<in> set tr \<and> d < c)"
proof (induction tr rule: rev_induct)
  case Nil
  then show ?case by (simp add: survivors_def entry_def dd_get_def)
next
  case (snoc x tr)
  obtain a' r' d' where x: "x = ((a', r'), d')" by (cases x) auto
  show ?case using snoc x by (auto simp: survivors_snoc mic_add_entry)
qed

lemma survivors_distinct: "distinct (dd_get (dd_get (survivors c tr) a) d)"
proof (induction tr arbitrary: a d rule: rev_induct)
  case Nil
  then show ?case by (simp add: survivors_def dd_get_def)
next
  case (snoc x tr)
  obtain a' r' d' where x: "x = ((a', r'), d')" by (cases x) auto
  show ?case using snoc x mic_add_distinct[of "survivors c tr"] by (auto simp: survivors_snoc)
qed

lemma trace_body_keys:
  assumes "trace_body rec env cfg t1h t2h par pre a r (tr0, st) = Inr (tr, st1)"
  shows "tr = tr0 \<or> (\<exists>d. tr = tr0 @ [((a, r), d)])"
  using assms
  by (auto simp: trace_body_def bind_res_def split: option.splits if_splits sum.splits)

lemma trace_inner_keys:
  assumes "fold_res (trace_body rec env cfg t1h t2h par pre a) rs (tr0, st) = Inr (tr, st1)"
      and "distinct rs" and "distinct (map fst tr0)"
      and "\<forall>r \<in> set rs. (a, r) \<notin> fst ` set tr0"
  shows "distinct (map fst tr) \<and> fst ` set tr \<subseteq> fst ` set tr0 \<union> {a} \<times> set rs"
  using assms
proof (induction rs arbitrary: tr0 st)
  case Nil
  then show ?case by simp
next
  case (Cons r rs)
  obtain tr1 s1 where b: "trace_body rec env cfg t1h t2h par pre a r (tr0, st) = Inr (tr1, s1)"
      and rest: "fold_res (trace_body rec env cfg t1h t2h par pre a) rs (tr1, s1) = Inr (tr, st1)"
    using Cons.prems(1) by (auto split: sum.splits)
  have k: "tr1 = tr0 \<or> (\<exists>d. tr1 = tr0 @ [((a, r), d)])" using trace_body_keys[OF b] .
  have d1: "distinct (map fst tr1)" using k Cons.prems(3,4) by auto
  have n1: "\<forall>r' \<in> set rs. (a, r') \<notin> fst ` set tr1" using k Cons.prems(2,4) by force
  have ih: "distinct (map fst tr) \<and> fst ` set tr \<subseteq> fst ` set tr1 \<union> {a} \<times> set rs"
    using Cons.IH[OF rest _ d1 n1] Cons.prems(2) by simp
  have s1: "fst ` set tr1 \<subseteq> fst ` set tr0 \<union> {(a, r)}" using k by auto
  have "fst ` set tr \<subseteq> fst ` set tr0 \<union> {a} \<times> set (r # rs)"
  proof
    fix x assume "x \<in> fst ` set tr"
    then have "x \<in> fst ` set tr1 \<or> x \<in> {a} \<times> set rs" using ih by blast
    then have "x \<in> fst ` set tr0 \<or> x = (a, r) \<or> x \<in> {a} \<times> set rs" using s1 by blast
    then show "x \<in> fst ` set tr0 \<union> {a} \<times> set (r # rs)" by auto
  qed
  then show ?case using ih by simp
qed

lemma trace_outer_keys:
  assumes "fold_res (\<lambda>a. fold_res (trace_body rec env cfg t1h t2h par pre a) rs) as (tr0, st) = Inr (tr, st1)"
      and "distinct as" and "distinct rs" and "distinct (map fst tr0)"
      and "\<forall>a \<in> set as. \<forall>r. (a, r) \<notin> fst ` set tr0"
  shows "distinct (map fst tr) \<and> fst ` set tr \<subseteq> fst ` set tr0 \<union> set as \<times> set rs"
  using assms
proof (induction as arbitrary: tr0 st)
  case Nil
  then show ?case by simp
next
  case (Cons a as)
  obtain tr1 s1 where b: "fold_res (trace_body rec env cfg t1h t2h par pre a) rs (tr0, st) = Inr (tr1, s1)"
      and rest: "fold_res (\<lambda>a. fold_res (trace_body rec env cfg t1h t2h par pre a) rs) as (tr1, s1) = Inr (tr, st1)"
    using Cons.prems(1) by (auto split: sum.splits)
  have i: "distinct (map fst tr1) \<and> fst ` set tr1 \<subseteq> fst ` set tr0 \<union> {a} \<times> set rs"
    using trace_inner_keys[OF b Cons.prems(3,4)] Cons.prems(5) by simp
  have n1: "\<forall>a' \<in> set as. \<forall>r. (a', r) \<notin> fst ` set tr1"
  proof (intro ballI allI)
    fix a' r assume a': "a' \<in> set as"
    then have "a' \<noteq> a" using Cons.prems(2) by auto
    moreover have "(a', r) \<notin> fst ` set tr0" using Cons.prems(5) a' by simp
    ultimately show "(a', r) \<notin> fst ` set tr1" using i by auto
  qed
  have ih: "distinct (map fst tr) \<and> fst ` set tr \<subseteq> fst ` set tr1 \<union> set as \<times> set rs"
    using Cons.IH[OF rest _ Cons.prems(3) _ n1] Cons.prems(2) i by simp
  have "fst ` set tr \<subseteq> fst ` set tr0 \<union> set (a # as) \<times> set rs"
  proof
    fix x assume "x \<in> fst ` set tr"
    then have "x \<in> fst ` set tr1 \<or> x \<in> set as \<times> set rs" using ih by blast
    then have "x \<in> fst ` set tr0 \<or> x \<in> {a} \<times> set rs \<or> x \<in> set as \<times> set rs" using i by blast
    then show "x \<in> fst ` set tr0 \<union> set (a # as) \<times> set rs" by auto
  qed
  then show ?case using ih by simp
qed

lemma computed_distances_keys:
  assumes "computed_distances rec env cfg hashes_added hashes_removed t1h t2h par pre st = Inr (tr, st1)"
      and "distinct hashes_added" and "distinct hashes_removed"
  shows "distinct (map fst tr) \<and> fst ` set tr \<subseteq> set hashes_added \<times> set hashes_removed"
  using trace_outer_keys[of rec env cfg t1h t2h par pre hashes_removed hashes_added "[]" st tr st1] assms
  by (simp add: computed_distances_def)

lemma pairs_run_unfold:
  assumes run: "get_most_in_common_pairs_in_iterables rec env cfg hashes_added hashes_removed t1h t2h par st
                  = Inr (pairs, st')"
      and miss: "\<not> pairs_cache_hit st hashes_added hashes_removed"
  shows "\<exists>tr st1. computed_distances rec env cfg hashes_added hashes_removed t1h t2h par
                     (precalculated env cfg hashes_added hashes_removed t1h t2h) st = Inr (tr, st1)
                 \<and> pairs = with_inverse (greedy_pairs (survivors (cutoff_distance_for_pairs cfg) tr))"
proof -
  let ?cd = "computed_distances rec env cfg hashes_added hashes_removed t1h t2h par
               (precalculated env cfg hashes_added hashes_removed t1h t2h) st"
  show ?thesis
  proof (cases ?cd)
    case (Inl e)
    then show ?thesis
      using run miss
      by (auto simp: get_most_in_common_pairs_in_iterables_def pairs_cache_hit_def Let_def
                candidates_refines bind_res_def split: if_splits)
  next
    case (Inr p)
    obtain tr st1 where p: "p = (tr, st1)" by (cases p)
    show ?thesis
      using run miss Inr p
      by (auto simp: get_most_in_common_pairs_in_iterables_def pairs_cache_hit_def Let_def
                candidates_refines bind_res_def split: if_splits option.splits)
  qed
qed

lemma greedy_survivors:
  assumes keys: "fst ` set tr \<subseteq> A \<times> R"
  shows "distinct (map fst (greedy_pairs (survivors c tr)))
       \<and> (\<forall>k r. map_of (greedy_pairs (survivors c tr)) k = Some r
             \<longrightarrow> k \<in> A \<and> r \<in> R \<and> (\<exists>d. ((k, r), d) \<in> set tr \<and> d < c))
       \<and> (\<forall>k k' r. map_of (greedy_pairs (survivors c tr)) k = Some r
                    \<and> map_of (greedy_pairs (survivors c tr)) k' = Some r \<longrightarrow> k = k')"
proof -
  obtain used where i: "pairs_inv (\<lambda>a r. \<exists>d. entry (survivors c tr) a d r) used (greedy_pairs (survivors c tr))"
    using greedy_pairs_inv by blast
  have e: "\<exists>d. ((k, r), d) \<in> set tr \<and> d < c" if "map_of (greedy_pairs (survivors c tr)) k = Some r" for k r
    using i that unfolding pairs_inv_def by (auto simp: survivors_entry)
  have m: "k \<in> A \<and> r \<in> R" if kr: "map_of (greedy_pairs (survivors c tr)) k = Some r" for k r
  proof -
    obtain d where "((k, r), d) \<in> set tr" using e[OF kr] by blast
    then have "(k, r) \<in> fst ` set tr" by force
    then show ?thesis using keys by auto
  qed
  show ?thesis using i e m unfolding pairs_inv_def by blast
qed

lemma pairs_characterisation:
  assumes run: "get_most_in_common_pairs_in_iterables rec env cfg hashes_added hashes_removed t1h t2h par st
                  = Inr (pairs, st')"
      and miss: "\<not> pairs_cache_hit st hashes_added hashes_removed"
      and da: "distinct hashes_added" and dr: "distinct hashes_removed"
      and disj: "set hashes_added \<inter> set hashes_removed = {}"
  shows "\<exists>tr st1 G.
           computed_distances rec env cfg hashes_added hashes_removed t1h t2h par
             (precalculated env cfg hashes_added hashes_removed t1h t2h) st = Inr (tr, st1)
         \<and> distinct (map fst tr) \<and> fst ` set tr \<subseteq> set hashes_added \<times> set hashes_removed
         \<and> G = map_of (greedy_pairs (survivors (cutoff_distance_for_pairs cfg) tr))
         \<and> (\<forall>k r. G k = Some r \<longrightarrow> k \<in> set hashes_added \<and> r \<in> set hashes_removed
                    \<and> (\<exists>d. ((k, r), d) \<in> set tr \<and> d < cutoff_distance_for_pairs cfg))
         \<and> (\<forall>k k' r. G k = Some r \<and> G k' = Some r \<longrightarrow> k = k')
         \<and> (\<forall>x y. map_of pairs x = Some y \<longleftrightarrow> (G x = Some y \<or> G y = Some x))"
proof -
  obtain tr st1 where cd: "computed_distances rec env cfg hashes_added hashes_removed t1h t2h par
                     (precalculated env cfg hashes_added hashes_removed t1h t2h) st = Inr (tr, st1)"
      and p: "pairs = with_inverse (greedy_pairs (survivors (cutoff_distance_for_pairs cfg) tr))"
    using pairs_run_unfold[OF run miss] by blast
  let ?G = "greedy_pairs (survivors (cutoff_distance_for_pairs cfg) tr)"
  have k: "distinct (map fst tr) \<and> fst ` set tr \<subseteq> set hashes_added \<times> set hashes_removed"
    using computed_distances_keys[OF cd da dr] .
  have g: "distinct (map fst ?G)
       \<and> (\<forall>k r. map_of ?G k = Some r
             \<longrightarrow> k \<in> set hashes_added \<and> r \<in> set hashes_removed
                 \<and> (\<exists>d. ((k, r), d) \<in> set tr \<and> d < cutoff_distance_for_pairs cfg))
       \<and> (\<forall>k k' r. map_of ?G k = Some r \<and> map_of ?G k' = Some r \<longrightarrow> k = k')"
    using greedy_survivors[of tr "set hashes_added" "set hashes_removed" "cutoff_distance_for_pairs cfg"] k
    by blast
  have w: "map_of pairs x = Some y
           \<longleftrightarrow> (map_of ?G y = Some x \<or> ((\<forall>k. map_of ?G k \<noteq> Some x) \<and> map_of ?G x = Some y))" for x y
    using with_inverse_map_of[of ?G x y] g p by blast
  have s: "map_of pairs x = Some y \<longleftrightarrow> (map_of ?G x = Some y \<or> map_of ?G y = Some x)" for x y
  proof -
    have "\<forall>k. map_of ?G k \<noteq> Some x" if "map_of ?G x = Some y"
    proof (intro allI notI)
      fix k assume "map_of ?G k = Some x"
      then have "x \<in> set hashes_removed" using g by blast
      moreover have "x \<in> set hashes_added" using that g by blast
      ultimately show False using disj by blast
    qed
    then show ?thesis using w[of x y] by blast
  qed
  show ?thesis using cd k g s by blast
qed

text \<open>
  The pairing is symmetric and one to one, and every pair joins an added hash with a
  removed one.
\<close>

lemma pairing_is_symmetric_and_one_to_one:
  assumes run: "get_most_in_common_pairs_in_iterables rec env cfg hashes_added hashes_removed t1h t2h par st
                  = Inr (pairs, st')"
      and miss: "\<not> pairs_cache_hit st hashes_added hashes_removed"
      and da: "distinct hashes_added" and dr: "distinct hashes_removed"
      and disj: "set hashes_added \<inter> set hashes_removed = {}"
  shows "(\<forall>x y. map_of pairs x = Some y \<longleftrightarrow> map_of pairs y = Some x)
       \<and> (\<forall>x x' y. map_of pairs x = Some y \<and> map_of pairs x' = Some y \<longrightarrow> x = x')
       \<and> (\<forall>x y. map_of pairs x = Some y \<longrightarrow>
              (x \<in> set hashes_added \<and> y \<in> set hashes_removed)
            \<or> (x \<in> set hashes_removed \<and> y \<in> set hashes_added))"
proof -
  obtain tr st1 G where
        g1: "\<forall>k r. G k = Some r \<longrightarrow> k \<in> set hashes_added \<and> r \<in> set hashes_removed
                    \<and> (\<exists>d. ((k, r), d) \<in> set tr \<and> d < cutoff_distance_for_pairs cfg)"
    and g2: "\<forall>k k' r. G k = Some r \<and> G k' = Some r \<longrightarrow> k = (k'::hashkey)"
    and s: "\<forall>x y. map_of pairs x = Some y \<longleftrightarrow> (G x = Some y \<or> G y = Some x)"
    using pairs_characterisation[OF run miss da dr disj] by blast
  have a: "\<forall>x y. map_of pairs x = Some y \<longleftrightarrow> map_of pairs y = Some x" using s by blast
  have b: "x = x'" if "map_of pairs x = Some y" "map_of pairs x' = Some y" for x x' y
    using that by (metis a option.inject)
  have c: "(x \<in> set hashes_added \<and> y \<in> set hashes_removed)
            \<or> (x \<in> set hashes_removed \<and> y \<in> set hashes_added)" if "map_of pairs x = Some y" for x y
    using that s g1 by blast
  show ?thesis using a b c by blast
qed

text \<open>
  C6. When the pairing is computed (not answered from the cache) for added and removed
  hashes as \<^verbatim>\<open>_diff_iterable_with_deephash\<close> passes them (no hash twice, none on both
  sides), the candidate loops compute a list of distances \<open>trace\<close> such that: a removed
  hash is kept for an added hash in \<^verbatim>\<open>most_in_common_pairs\<close> exactly when their computed
  distance is strictly below \<^verbatim>\<open>cutoff_distance_for_pairs\<close>; a candidate whose computed
  distance is greater than or equal to the cutoff is in the returned pairing in neither
  direction; and every pair of the returned pairing has a computed distance strictly below
  the cutoff.
\<close>

theorem far_candidates_are_never_paired:
  assumes run: "map_sum id fst
                  (get_most_in_common_pairs_in_iterables rec env cfg hashes_added hashes_removed
                     t1_hashtable t2_hashtable parents_ids st) = Inr pairs"
      and miss: "\<not> pairs_cache_hit st hashes_added hashes_removed"
      and da: "distinct hashes_added" and dr: "distinct hashes_removed"
      and disj: "set hashes_added \<inter> set hashes_removed = {}"
  shows "\<exists>trace most_in_common_pairs st1 st2.
           computed_distances rec env cfg hashes_added hashes_removed t1_hashtable t2_hashtable parents_ids
             (precalculated env cfg hashes_added hashes_removed t1_hashtable t2_hashtable) st
             = Inr (trace, st1)
         \<and> candidates rec env cfg hashes_added hashes_removed t1_hashtable t2_hashtable parents_ids
             (precalculated env cfg hashes_added hashes_removed t1_hashtable t2_hashtable) st
             = Inr (most_in_common_pairs, st2)
         \<and> (\<forall>a r d. entry most_in_common_pairs a d r
                      \<longleftrightarrow> ((a, r), d) \<in> set trace \<and> d < cutoff_distance_for_pairs cfg)
         \<and> (\<forall>a r d. ((a, r), d) \<in> set trace \<and> cutoff_distance_for_pairs cfg \<le> d
                      \<longrightarrow> map_of pairs a \<noteq> Some r \<and> map_of pairs r \<noteq> Some a)
         \<and> (\<forall>x y. map_of pairs x = Some y
                    \<longrightarrow> (\<exists>d. d < cutoff_distance_for_pairs cfg
                              \<and> (((x, y), d) \<in> set trace \<or> ((y, x), d) \<in> set trace)))"
proof -
  obtain st' where run': "get_most_in_common_pairs_in_iterables rec env cfg hashes_added hashes_removed
                     t1_hashtable t2_hashtable parents_ids st = Inr (pairs, st')"
    using run
    by (cases "get_most_in_common_pairs_in_iterables rec env cfg hashes_added hashes_removed
                     t1_hashtable t2_hashtable parents_ids st") auto
  let ?pre = "precalculated env cfg hashes_added hashes_removed t1_hashtable t2_hashtable"
  obtain tr st1 G where
        cd: "computed_distances rec env cfg hashes_added hashes_removed t1_hashtable t2_hashtable parents_ids
               ?pre st = Inr (tr, st1)"
    and dt: "distinct (map fst tr)"
    and ks: "fst ` set tr \<subseteq> set hashes_added \<times> set hashes_removed"
    and g1: "\<forall>k r. G k = Some r \<longrightarrow> k \<in> set hashes_added \<and> r \<in> set hashes_removed
                    \<and> (\<exists>d. ((k, r), d) \<in> set tr \<and> d < cutoff_distance_for_pairs cfg)"
    and s: "\<forall>x y. map_of pairs x = Some y \<longleftrightarrow> (G x = Some y \<or> G y = Some x)"
    using pairs_characterisation[OF run' miss da dr disj] by blast
  have cs: "candidates rec env cfg hashes_added hashes_removed t1_hashtable t2_hashtable parents_ids ?pre st
            = Inr (survivors (cutoff_distance_for_pairs cfg) tr, st1)"
    by (simp add: candidates_refines cd bind_res_def)
  have uniq: "d = d'" if "((a, r), d) \<in> set tr" "((a, r), d') \<in> set tr" for a r d d'
    using that dt by (meson eq_key_imp_eq_value)
  have far: "map_of pairs a \<noteq> Some r \<and> map_of pairs r \<noteq> Some a"
    if m: "((a, r), d) \<in> set tr" and f: "cutoff_distance_for_pairs cfg \<le> d" for a r d
  proof -
    have "(a, r) \<in> fst ` set tr" using m by force
    then have ar: "a \<in> set hashes_added" "r \<in> set hashes_removed" using ks by auto
    have n1: "G a \<noteq> Some r"
    proof
      assume "G a = Some r"
      then obtain d' where "((a, r), d') \<in> set tr" "d' < cutoff_distance_for_pairs cfg" using g1 by blast
      then show False using uniq[OF m] f by force
    qed
    have n2: "G r \<noteq> Some a"
    proof
      assume "G r = Some a"
      then have "r \<in> set hashes_added" using g1 by blast
      then show False using ar disj by blast
    qed
    show ?thesis using n1 n2 s by blast
  qed
  have near: "\<exists>d. d < cutoff_distance_for_pairs cfg \<and> (((x, y), d) \<in> set tr \<or> ((y, x), d) \<in> set tr)"
    if "map_of pairs x = Some y" for x y
    using that s g1 by blast
  show ?thesis using cd cs far near survivors_entry[of "cutoff_distance_for_pairs cfg" tr] by blast
qed

text \<open>
  The witness: \<^verbatim>\<open>[0, 10, 7, 8]\<close> against \<^verbatim>\<open>[20, 7, 8]\<close>. The distance of 20 and 0 is the
  cutoff itself, that of 20 and 10 is below it; the pairing is 20 with 10.
\<close>

theorem far_candidates_are_never_paired_witness:
  "map_sum id fst
     (get_most_in_common_pairs_in_iterables (diff 19 (small_env near_heap) unordered_config)
        (small_env near_heap) unordered_config [20] [0, 10]
        (create_hashtable (small_env near_heap) [VRef 0, VRef 10, VRef 7, VRef 8])
        (create_hashtable (small_env near_heap) [VRef 20, VRef 7, VRef 8]) {VRef 100} fresh_state)
     = Inr [(20, 10), (10, 20)]
   \<and> \<not> pairs_cache_hit fresh_state [20] [0, 10]
   \<and> distinct [20::hashkey] \<and> distinct [0::hashkey, 10] \<and> set [20::hashkey] \<inter> set [0, 10] = {}
   \<and> map_sum id fst
       (computed_distances (diff 19 (small_env near_heap) unordered_config)
          (small_env near_heap) unordered_config [20] [0, 10]
          (create_hashtable (small_env near_heap) [VRef 0, VRef 10, VRef 7, VRef 8])
          (create_hashtable (small_env near_heap) [VRef 20, VRef 7, VRef 8]) {VRef 100} None fresh_state)
     = Inr [((20, 0), 3 / 10), ((20, 10), 1 / 10)]
   \<and> cutoff_distance_for_pairs unordered_config = 3 / 10
   \<and> (\<exists>trace most_in_common_pairs st1 st2.
           computed_distances (diff 19 (small_env near_heap) unordered_config)
             (small_env near_heap) unordered_config [20] [0, 10]
             (create_hashtable (small_env near_heap) [VRef 0, VRef 10, VRef 7, VRef 8])
             (create_hashtable (small_env near_heap) [VRef 20, VRef 7, VRef 8]) {VRef 100}
             (precalculated (small_env near_heap) unordered_config [20] [0, 10]
                (create_hashtable (small_env near_heap) [VRef 0, VRef 10, VRef 7, VRef 8])
                (create_hashtable (small_env near_heap) [VRef 20, VRef 7, VRef 8])) fresh_state
             = Inr (trace, st1)
         \<and> candidates (diff 19 (small_env near_heap) unordered_config)
             (small_env near_heap) unordered_config [20] [0, 10]
             (create_hashtable (small_env near_heap) [VRef 0, VRef 10, VRef 7, VRef 8])
             (create_hashtable (small_env near_heap) [VRef 20, VRef 7, VRef 8]) {VRef 100}
             (precalculated (small_env near_heap) unordered_config [20] [0, 10]
                (create_hashtable (small_env near_heap) [VRef 0, VRef 10, VRef 7, VRef 8])
                (create_hashtable (small_env near_heap) [VRef 20, VRef 7, VRef 8])) fresh_state
             = Inr (most_in_common_pairs, st2)
         \<and> (\<forall>a r d. entry most_in_common_pairs a d r
                      \<longleftrightarrow> ((a, r), d) \<in> set trace \<and> d < cutoff_distance_for_pairs unordered_config)
         \<and> (\<forall>a r d. ((a, r), d) \<in> set trace \<and> cutoff_distance_for_pairs unordered_config \<le> d
                      \<longrightarrow> map_of [(20, 10), (10, 20)] a \<noteq> Some r \<and> map_of [(20, 10), (10, 20)] r \<noteq> Some a)
         \<and> (\<forall>x y. map_of [(20, 10), (10, 20)] x = Some y
                    \<longrightarrow> (\<exists>d. d < cutoff_distance_for_pairs unordered_config
                              \<and> (((x, y), d) \<in> set trace \<or> ((y, x), d) \<in> set trace))))"
proof -
  have r: "map_sum id fst
     (get_most_in_common_pairs_in_iterables (diff 19 (small_env near_heap) unordered_config)
        (small_env near_heap) unordered_config [20] [0, 10]
        (create_hashtable (small_env near_heap) [VRef 0, VRef 10, VRef 7, VRef 8])
        (create_hashtable (small_env near_heap) [VRef 20, VRef 7, VRef 8]) {VRef 100} fresh_state)
     = Inr [(20, 10), (10, 20)]"
    by code_simp
  have m: "\<not> pairs_cache_hit fresh_state [20] [0, 10]" by code_simp
  have d: "distinct [20::hashkey]" "distinct [0::hashkey, 10]" "set [20::hashkey] \<inter> set [0, 10] = {}"
    by simp_all
  have t: "map_sum id fst
       (computed_distances (diff 19 (small_env near_heap) unordered_config)
          (small_env near_heap) unordered_config [20] [0, 10]
          (create_hashtable (small_env near_heap) [VRef 0, VRef 10, VRef 7, VRef 8])
          (create_hashtable (small_env near_heap) [VRef 20, VRef 7, VRef 8]) {VRef 100} None fresh_state)
     = Inr [((20, 0), 3 / 10), ((20, 10), 1 / 10)]"
    by code_simp
  have c: "cutoff_distance_for_pairs unordered_config = 3 / 10"
    by (simp add: unordered_config_def default_config_def CUTOFF_DISTANCE_FOR_PAIRS_DEFAULT_def)
  show ?thesis
    using far_candidates_are_never_paired[OF r m d] r m d t c by blast
qed

section \<open>Unordered collections: ties inside a distance tier\<close>

text \<open>
  C7, at \<^verbatim>\<open>t1 = [10, 40, 7, 8, 9]\<close>, \<^verbatim>\<open>t2 = [20, 5, 7, 8, 9]\<close>, order ignored. The added 20 has
  the removed 10 and 40 at distance 1/10, in that order; the added 5 has 10 at distance 1/10
  and 40 at 7/30. In the tier 1/10 the inner loop, run for 20, goes through both 10 and
  40: it marks both used and overwrites \<^verbatim>\<open>pairs[20]\<close>, so that 20 stays paired with 40, the
  last one, and 10 is used without being in a pair. Then 5 finds 10 used in the tier 1/10
  and 40 used in the tier 7/30. The pairing is 20 with 40 alone, and the run reports 5 as
  added and 10 as removed. With \<^verbatim>\<open>t1 = [10, 40, 7, 8]\<close>, \<^verbatim>\<open>t2 = [20, 7, 8]\<close> the added 20 is
  paired with 40 and not with 10, the first candidate met.
\<close>

theorem last_candidate_of_a_tier_wins:
  "map_sum id fst
     (candidates (diff 19 (small_env crowd_heap) unordered_config)
        (small_env crowd_heap) unordered_config [20, 5] [10, 40]
        (create_hashtable (small_env crowd_heap) [VRef 10, VRef 40, VRef 7, VRef 8, VRef 9])
        (create_hashtable (small_env crowd_heap) [VRef 20, VRef 5, VRef 7, VRef 8, VRef 9])
        {VRef 100} None fresh_state)
     = Inr [(20, [(1 / 10, [10, 40])]), (5, [(1 / 10, [10]), (7 / 30, [40])])]
   \<and> to_hashes_loop 20 [10, 40] ({}, []) = ({10, 20, 40}, [(20, 40)])
   \<and> greedy_pairs [(20, [(1 / 10, [10, 40])]), (5, [(1 / 10, [10]), (7 / 30, [40])])] = [(20, 40)]
   \<and> map_sum id fst
     (get_most_in_common_pairs_in_iterables (diff 19 (small_env crowd_heap) unordered_config)
        (small_env crowd_heap) unordered_config [20, 5] [10, 40]
        (create_hashtable (small_env crowd_heap) [VRef 10, VRef 40, VRef 7, VRef 8, VRef 9])
        (create_hashtable (small_env crowd_heap) [VRef 20, VRef 5, VRef 7, VRef 8, VRef 9])
        {VRef 100} fresh_state)
     = Inr [(20, 40), (40, 20)]
   \<and> map_sum id (\<lambda>st. record_view (tree st))
        (DeepDiff (small_env crowd_heap) (default_args\<lparr>given := unordered_config\<rparr>) (VRef 100) (VRef 101))
     = Inr [(values_changed, Present (VRef 40), Present (VRef 20), [SubscriptableIterableRelationship 1 None]),
            (iterable_item_added, notpresent, Present (VRef 5), [SubscriptableIterableRelationship 1 None]),
            (iterable_item_removed, Present (VRef 10), notpresent, [SubscriptableIterableRelationship 0 None])]
   \<and> map_sum id fst
     (get_most_in_common_pairs_in_iterables (diff 19 (small_env twins_heap) unordered_config)
        (small_env twins_heap) unordered_config [20] [10, 40]
        (create_hashtable (small_env twins_heap) [VRef 10, VRef 40, VRef 7, VRef 8])
        (create_hashtable (small_env twins_heap) [VRef 20, VRef 7, VRef 8]) {VRef 100} fresh_state)
     = Inr [(20, 40), (40, 20)]
   \<and> map_sum id (\<lambda>st. record_view (tree st))
        (DeepDiff (small_env twins_heap) (default_args\<lparr>given := unordered_config\<rparr>) (VRef 100) (VRef 101))
     = Inr [(values_changed, Present (VRef 40), Present (VRef 20), [SubscriptableIterableRelationship 1 None]),
            (iterable_item_removed, Present (VRef 10), notpresent, [SubscriptableIterableRelationship 0 None])]"
  by code_simp

section \<open>Unordered collections: when the pairs are not computed\<close>






lemma buckets_ok_filter: "buckets_ok h \<Longrightarrow> buckets_ok (filter P h)"
  by (auto simp: buckets_ok_def distinct_map_filter list_all_iff)








































section \<open>The distance cache and the budget\<close>

text \<open>
  A distance taken from the cache costs the budget nothing: the state is the one before,
  but for the hit counter and the cache. A distance that is computed is computed by a
  nested comparison of the two items, which shares the counter and counts at least once.
\<close>

lemma dispatch_counts_once:
  assumes ret: "diff (Suc n) env cfg lvl parents_ids local_tree st = Inr (lt', st')"
    and nex: "\<not> limit_exceeded cfg st"
  shows "DIFF_COUNT st + 1 \<le> DIFF_COUNT st'"
proof -
  obtain sig st1 where cd: "count_diff cfg st = Inr (sig, st1)"
    using ret by (auto simp: diff_body_def split: sum.splits)
  have sg: "sig = Continue" using cd nex count_diff_Stop[of cfg st st1] by (cases sig) auto
  have d1: "DIFF_COUNT st1 = DIFF_COUNT st + 1" using cd sg count_diff_Continue[of cfg st st1] by simp
  have run: "compare_level (diff n env cfg) env cfg lvl parents_ids local_tree st1 = Inr (lt', st')"
    using ret cd sg by (simp add: diff_body_def)
  have "counts_on snd st1 (compare_level (diff n env cfg) env cfg lvl parents_ids local_tree st1)"
    by (rule compare_level_counts[OF diff_counting])
  then show ?thesis using run d1 by simp
qed

lemma distance_cache_hit_counts_nothing:
  assumes "DISTANCE_CACHE_ENABLED st"
    and "lfu_contains (distance_cache st) (get_distance_cache_key added_hash removed_hash)"
    and "lfu_get (distance_cache st) (get_distance_cache_key added_hash removed_hash) = (Some (CDistance d), c)"
  shows "get_rough_distance_of_hashed_objs rec env cfg added_hash removed_hash added_hash_obj removed_hash_obj st
         = Inr (d, st\<lparr>DISTANCE_CACHE_HIT_COUNT := DISTANCE_CACHE_HIT_COUNT st + 1, distance_cache := c\<rparr>)"
  using assms by (simp add: get_rough_distance_of_hashed_objs_def)

lemma distance_computed_counts:
  assumes miss: "\<not> DISTANCE_CACHE_ENABLED st
                 \<or> \<not> lfu_contains (distance_cache st) (get_distance_cache_key added_hash removed_hash)"
    and nex: "\<not> limit_exceeded cfg st"
    and ret: "get_rough_distance_of_hashed_objs (diff (Suc n) env cfg) env cfg added_hash removed_hash
                added_hash_obj removed_hash_obj st = Inr (d, st')"
  shows "DIFF_COUNT st + 1 \<le> DIFF_COUNT st'"
proof -
  let ?key = "if DISTANCE_CACHE_ENABLED st then Some (get_distance_cache_key added_hash removed_hash) else None"
  obtain r a where ir: "item removed_hash_obj = Present r" and ia: "item added_hash_obj = Present a"
    using ret miss
    by (auto simp: get_rough_distance_of_hashed_objs_def Let_def split: side.splits if_splits)
  have unf: "get_rough_distance_of_hashed_objs (diff (Suc n) env cfg) env cfg added_hash removed_hash
               added_hash_obj removed_hash_obj st
             = bind_res (nested_DeepDiff (diff (Suc n) env cfg) env cfg r a st) (\<lambda>st1.
                 bind_res (get_rough_distance env cfg (tree st1) r a) (\<lambda>distance.
                   let st2 = st1\<lparr>tree := tree st, iterable_opcodes := iterable_opcodes st\<rparr>
                   in case ?key of
                        Some k \<Rightarrow>
                          if DISTANCE_CACHE_ENABLED st2
                          then Inr (distance, st2\<lparr>distance_cache := lfu_set (distance_cache st2) k (CDistance distance)\<rparr>)
                          else Inr (distance, st2)
                      | None \<Rightarrow> Inr (distance, st2)))"
    using miss ir ia by (auto simp: get_rough_distance_of_hashed_objs_def Let_def)
  obtain st1 where n1: "nested_DeepDiff (diff (Suc n) env cfg) env cfg r a st = Inr st1"
    using ret unfolding unf by (cases "nested_DeepDiff (diff (Suc n) env cfg) env cfg r a st")
      (auto simp: bind_res_def)
  obtain lt0 st0 where r0: "diff (Suc n) env cfg (root_level r a) {r} None
                              (st\<lparr>tree := [], iterable_opcodes := []\<rparr>) = Inr (lt0, st0)"
    and v0: "get_view_results (heap env) cfg st0 = Inr st1"
    using n1 by (auto simp: nested_DeepDiff_def bind_res_def split: sum.splits)
  have "\<not> limit_exceeded cfg (st\<lparr>tree := [], iterable_opcodes := []\<rparr>)"
    using nex by (simp add: limit_exceeded_def split: option.splits)
  from dispatch_counts_once[OF r0 this]
  have c0: "DIFF_COUNT st + 1 \<le> DIFF_COUNT st0" by simp
  have c1: "DIFF_COUNT st1 = DIFF_COUNT st0" by (rule get_view_results_count[OF v0])
  have "DIFF_COUNT st' = DIFF_COUNT st1"
    using ret unfolding unf n1
    by (cases "get_rough_distance env cfg (tree st1) r a")
       (auto simp: bind_res_def Let_def split: option.splits if_splits)
  then show ?thesis using c0 c1 by simp
qed


end
